theory Spec2Isabelle
  imports Complex_Main "HOL-Library.Multiset"
begin

section \<open>Package installation orchestrator of dotfiles-go\<close>

text \<open>
  A shallow embedding of \<^verbatim>\<open>internal/installer\<close>: the package manager interface
  (\<^verbatim>\<open>types.go\<close>), the sequential installer (\<^verbatim>\<open>installer.go\<close>), the parallel
  installer and the progress manager (\<^verbatim>\<open>parallel.go\<close>, \<^verbatim>\<open>progress.go\<close>) and the
  three concrete managers (pacman, yay, winget).

  The machine the program runs on (package databases, files, the clock) is a value of an
  arbitrary type \<open>'w\<close>, passed through every call that can change it. A
  \<^verbatim>\<open>context.Context\<close> is what the code can observe of it: whether \<^verbatim>\<open>ctx.Done()\<close> is
  closed in the current state of the machine. Log lines and the wall-clock
  \<^verbatim>\<open>Duration\<close> of a result are not modelled. The progress manager is modelled on its
  own: the batch functions only send it events and results, and nothing it does reaches
  the results they return or the machine.
\<close>

subsection \<open>types.go\<close>

text \<open>
  The errors the code builds: no manager available (\<^verbatim>\<open>InstallPackage\<close>), the error of
  the context (\<^verbatim>\<open>ctx.Err()\<close>), the error of a failed command, and the messages of
  \<^verbatim>\<open>YayManager\<close> (database lock file present, sudo not usable, sudo authentication,
  lock named in the output, download failure, any other failure with its output).
  \<open>ErrOther\<close> stands for an error of a manager outside this repository.
\<close>

datatype error =
    ErrNoManager
  | ErrContext
  | ErrExit
  | ErrPacmanLocked
  | ErrSudoUnavailable
  | ErrSudoAuth
  | ErrDbLck
  | ErrNetwork
  | ErrInstallFailed string
  | ErrOther string

type_synonym 'w Context = "'w \<Rightarrow> bool"

record 'w PackageManager =
  Name :: string
  IsAvailable :: "'w \<Rightarrow> bool"
  Install :: "'w Context \<Rightarrow> string \<Rightarrow> 'w \<Rightarrow> error option \<times> 'w"
  IsInstalled :: "string \<Rightarrow> 'w \<Rightarrow> bool"
  Priority :: int

record InstallOptions =
  Force :: bool
  DryRun :: bool
  Verbose :: bool
  Quiet :: bool
  Parallel :: bool
  MaxWorkers :: int

record InstallResult =
  PackageName :: string
  Manager :: string
  Success :: bool
  Skipped :: bool
  Error :: "error option"

type_synonym 'w Installer = "'w PackageManager list"

definition RegisterManager :: "'w Installer \<Rightarrow> 'w PackageManager \<Rightarrow> 'w Installer" where
  "RegisterManager i manager = i @ [manager]"

definition GetAvailableManagers :: "'w Installer \<Rightarrow> 'w \<Rightarrow> 'w PackageManager list" where
  "GetAvailableManagers i w = filter (\<lambda>manager. IsAvailable manager w) i"

definition SelectManager :: "'w Installer \<Rightarrow> 'w \<Rightarrow> 'w PackageManager option" where
  "SelectManager i w =
     (case GetAvailableManagers i w of
        [] \<Rightarrow> None
      | first # rest \<Rightarrow>
          Some (foldl (\<lambda>best manager. if Priority manager < Priority best then manager else best)
                  first rest))"

subsection \<open>The operating system as the managers use it\<close>

text \<open>
  The concrete managers reach the machine through \<^verbatim>\<open>runtime.GOOS\<close>,
  \<^verbatim>\<open>exec.LookPath\<close>, \<^verbatim>\<open>os.Stat\<close> and external commands. These are parameters of the
  model. \<open>Run\<close> is a query command (\<^verbatim>\<open>pacman -Q\<close>, \<^verbatim>\<open>yay -Q\<close>, \<^verbatim>\<open>winget list\<close>,
  \<^verbatim>\<open>sudo -n echo test\<close>, \<^verbatim>\<open>grep\<close>) started with \<^verbatim>\<open>cmd.Run()\<close> or
  \<^verbatim>\<open>cmd.Output()\<close>: it reads the machine and yields whether the error is nil and the
  standard output. \<open>CombinedOutput\<close> is an install command started with
  \<^verbatim>\<open>exec.CommandContext\<close>: it also yields the machine it leaves behind.
\<close>

record 'w os =
  GOOS :: string
  LookPath :: "string \<Rightarrow> 'w \<Rightarrow> bool"
  Stat :: "string \<Rightarrow> 'w \<Rightarrow> bool"
  Run :: "string list \<Rightarrow> 'w \<Rightarrow> bool \<times> string"
  CombinedOutput :: "'w Context \<Rightarrow> string list \<Rightarrow> 'w \<Rightarrow> (bool \<times> string) \<times> 'w"

fun HasPrefix :: "string \<Rightarrow> string \<Rightarrow> bool" where
  "HasPrefix s [] = True"
| "HasPrefix [] (c # cs) = False"
| "HasPrefix (x # xs) (c # cs) = (x = c \<and> HasPrefix xs cs)"

fun Contains :: "string \<Rightarrow> string \<Rightarrow> bool" where
  "Contains [] substr = (substr = [])"
| "Contains (x # xs) substr = (HasPrefix (x # xs) substr \<or> Contains xs substr)"

subsection \<open>pacman.go\<close>

definition Pacman_IsInstalled :: "'w os \<Rightarrow> string \<Rightarrow> 'w \<Rightarrow> bool" where
  "Pacman_IsInstalled sys packageName w = fst (Run sys [''pacman'', ''-Q'', packageName] w)"

definition Pacman_Install :: "'w os \<Rightarrow> 'w Context \<Rightarrow> string \<Rightarrow> 'w \<Rightarrow> error option \<times> 'w" where
  "Pacman_Install sys ctx packageName w =
     (if Pacman_IsInstalled sys packageName w then (None, w)
      else (case CombinedOutput sys ctx
                   [''sudo'', ''pacman'', ''-S'', ''--noconfirm'', packageName] w of
              ((ok, output), w') \<Rightarrow> if \<not> ok then (Some ErrExit, w') else (None, w')))"

definition PacmanManager :: "'w os \<Rightarrow> 'w PackageManager" where
  "PacmanManager sys =
     \<lparr>Name = ''pacman'',
      IsAvailable = LookPath sys ''pacman'',
      Install = Pacman_Install sys,
      IsInstalled = Pacman_IsInstalled sys,
      Priority = 1\<rparr>"

subsection \<open>yay.go\<close>

definition isArchLinux :: "'w os \<Rightarrow> 'w \<Rightarrow> bool" where
  "isArchLinux sys w =
     (case Run sys [''grep'', ''^ID='', ''/etc/os-release''] w of
        (ok, output) \<Rightarrow> if \<not> ok then False else Contains output ''arch'')"

definition Yay_IsAvailable :: "'w os \<Rightarrow> 'w \<Rightarrow> bool" where
  "Yay_IsAvailable sys w =
     (if GOOS sys \<noteq> ''linux'' then False
      else (let available = LookPath sys ''yay'' w
            in if available \<and> \<not> isArchLinux sys w then False else available))"

definition checkPacmanLock :: "'w os \<Rightarrow> 'w \<Rightarrow> error option" where
  "checkPacmanLock sys w =
     (if Stat sys ''/var/lib/pacman/db.lck'' w then Some ErrPacmanLocked else None)"

definition checkSudoPermissions :: "'w os \<Rightarrow> 'w \<Rightarrow> error option" where
  "checkSudoPermissions sys w =
     (if \<not> fst (Run sys [''sudo'', ''-n'', ''echo'', ''test''] w)
      then Some ErrSudoUnavailable else None)"

definition Yay_IsInstalled :: "'w os \<Rightarrow> string \<Rightarrow> 'w \<Rightarrow> bool" where
  "Yay_IsInstalled sys packageName w = fst (Run sys [''yay'', ''-Q'', packageName] w)"

definition Yay_Install :: "'w os \<Rightarrow> 'w Context \<Rightarrow> string \<Rightarrow> 'w \<Rightarrow> error option \<times> 'w" where
  "Yay_Install sys ctx packageName w =
     (case checkPacmanLock sys w of
        Some err \<Rightarrow> (Some err, w)
      | None \<Rightarrow>
     (case checkSudoPermissions sys w of
        Some err \<Rightarrow> (Some err, w)
      | None \<Rightarrow>
     (if Yay_IsInstalled sys packageName w then (None, w)
      else (case CombinedOutput sys ctx
                   [''yay'', ''-S'', ''--noconfirm'', ''--needed'', packageName] w of
              ((ok, outputStr), w') \<Rightarrow>
                if \<not> ok then
                  (if Contains outputStr ''sudo: a terminal is required''
                      \<or> Contains outputStr ''sudo: a password is required''
                      \<or> Contains outputStr ''error installing repo packages''
                   then (Some ErrSudoAuth, w')
                   else if Contains outputStr ''db.lck'' then (Some ErrDbLck, w')
                   else if Contains outputStr ''failed to retrieve''
                           \<or> Contains outputStr ''download failed''
                   then (Some ErrNetwork, w')
                   else (Some (ErrInstallFailed outputStr), w'))
                else (None, w')))))"

definition YayManager :: "'w os \<Rightarrow> 'w PackageManager" where
  "YayManager sys =
     \<lparr>Name = ''yay'',
      IsAvailable = Yay_IsAvailable sys,
      Install = Yay_Install sys,
      IsInstalled = Yay_IsInstalled sys,
      Priority = 0\<rparr>"

subsection \<open>winget.go\<close>

definition Winget_IsAvailable :: "'w os \<Rightarrow> 'w \<Rightarrow> bool" where
  "Winget_IsAvailable sys w =
     (if GOOS sys \<noteq> ''windows'' then False else LookPath sys ''winget'' w)"

definition Winget_Install :: "'w os \<Rightarrow> 'w Context \<Rightarrow> string \<Rightarrow> 'w \<Rightarrow> error option \<times> 'w" where
  "Winget_Install sys ctx packageName w =
     (case CombinedOutput sys ctx
             [''winget'', ''install'', ''--id'', packageName, ''--silent'',
              ''--accept-package-agreements'', ''--accept-source-agreements''] w of
        ((ok, outputStr), w') \<Rightarrow>
          if \<not> ok then
            (if Contains outputStr ''Successfully installed''
                \<or> Contains outputStr ''already installed''
             then (None, w')
             else (Some ErrExit, w'))
          else (None, w'))"

definition Winget_IsInstalled :: "'w os \<Rightarrow> string \<Rightarrow> 'w \<Rightarrow> bool" where
  "Winget_IsInstalled sys packageName w =
     fst (Run sys [''winget'', ''list'', ''--id'', packageName] w)"

definition WingetManager :: "'w os \<Rightarrow> 'w PackageManager" where
  "WingetManager sys =
     \<lparr>Name = ''winget'',
      IsAvailable = Winget_IsAvailable sys,
      Install = Winget_Install sys,
      IsInstalled = Winget_IsInstalled sys,
      Priority = 2\<rparr>"

text \<open>
  \<^verbatim>\<open>InitializeManagers\<close> registers yay, pacman and winget and sorts the list by
  priority; the three priorities differ, so the order after \<^verbatim>\<open>sort.Slice\<close> is fixed.
\<close>

definition InitializeManagers :: "'w os \<Rightarrow> 'w Installer" where
  "InitializeManagers sys =
     sort_key Priority
       (RegisterManager (RegisterManager (RegisterManager [] (YayManager sys))
          (PacmanManager sys)) (WingetManager sys))"

subsection \<open>installer.go\<close>

definition InstallPackage ::
  "'w Installer \<Rightarrow> 'w Context \<Rightarrow> string \<Rightarrow> InstallOptions \<Rightarrow> 'w
     \<Rightarrow> (InstallResult \<times> error option) \<times> 'w" where
  "InstallPackage i ctx packageName opts w =
     (let result = \<lparr>PackageName = packageName, Manager = [], Success = False,
                     Skipped = False, Error = None\<rparr>
      in case SelectManager i w of
           None \<Rightarrow> ((result\<lparr>Error := Some ErrNoManager\<rparr>, Some ErrNoManager), w)
         | Some manager \<Rightarrow>
             (let result = result\<lparr>Manager := Name manager\<rparr>
              in if \<not> Force opts \<and> IsInstalled manager packageName w
                 then ((result\<lparr>Success := True, Skipped := True\<rparr>, None), w)
                 else if DryRun opts
                 then ((result\<lparr>Success := True\<rparr>, None), w)
                 else (case Install manager ctx packageName w of
                         (Some err, w') \<Rightarrow> ((result\<lparr>Error := Some err\<rparr>, Some err), w')
                       | (None, w') \<Rightarrow> ((result\<lparr>Success := True\<rparr>, None), w'))))"

text \<open>
  The loop of \<^verbatim>\<open>InstallPackages\<close>: \<open>results\<close> is the slice built so far. The
  \<^verbatim>\<open>select\<close> at the head of each iteration returns when the context is done;
  otherwise its \<^verbatim>\<open>default\<close> branch installs the package and appends the result. After
  a failed package without \<^verbatim>\<open>opts.Force\<close> that branch logs that the batch stops and
  executes \<^verbatim>\<open>break\<close>. The \<^verbatim>\<open>break\<close> stands inside the \<^verbatim>\<open>select\<close> statement, and in Go
  a \<^verbatim>\<open>break\<close> ends the innermost \<^verbatim>\<open>for\<close>, \<^verbatim>\<open>switch\<close> or \<^verbatim>\<open>select\<close>: it ends the
  \<^verbatim>\<open>select\<close>, and the \<^verbatim>\<open>for\<close> loop goes on with the next package. So every branch of
  the \<^verbatim>\<open>default\<close> case continues the loop.
\<close>

fun InstallPackages_loop ::
  "'w Installer \<Rightarrow> 'w Context \<Rightarrow> InstallOptions \<Rightarrow> string list \<Rightarrow> InstallResult list \<Rightarrow> 'w
     \<Rightarrow> (InstallResult list \<times> error option) \<times> 'w" where
  "InstallPackages_loop i ctx opts [] results w = ((results, None), w)"
| "InstallPackages_loop i ctx opts (pkg # pkgs) results w =
     (if ctx w then ((results, Some ErrContext), w)
      else (case InstallPackage i ctx pkg opts w of
              ((result, err), w') \<Rightarrow>
                InstallPackages_loop i ctx opts pkgs (results @ [result]) w'))"

definition InstallPackages ::
  "'w Installer \<Rightarrow> 'w Context \<Rightarrow> string list \<Rightarrow> InstallOptions \<Rightarrow> 'w
     \<Rightarrow> (InstallResult list \<times> error option) \<times> 'w" where
  "InstallPackages i ctx packages opts w = InstallPackages_loop i ctx opts packages [] w"

subsection \<open>parallel.go: worker sizing\<close>

text \<open>
  \<open>cpuCount\<close> is the value of \<^verbatim>\<open>runtime.NumCPU()\<close>. The last branch is
  \<^verbatim>\<open>int(float64(cpuCount) * 1.5)\<close>: the product is taken in the reals (it is exact in
  float64 for any core count below \<open>2^52\<close>) and the conversion truncates.
\<close>

definition GetOptimalWorkerCount :: "int \<Rightarrow> int \<Rightarrow> int" where
  "GetOptimalWorkerCount cpuCount packageCount =
     (if packageCount \<le> 2 then 1
      else if packageCount \<le> cpuCount then packageCount
      else \<lfloor>real_of_int cpuCount * 1.5\<rfloor>)"

subsection \<open>parallel.go: the parallel installer\<close>

record 'w ParallelInstaller =
  installer :: "'w Installer"
  maxWorkers :: int
  results :: "InstallResult list"

definition NewParallelInstaller :: "int \<Rightarrow> 'w Installer \<Rightarrow> int \<Rightarrow> 'w ParallelInstaller" where
  "NewParallelInstaller numCPU inst n =
     \<lparr>installer = inst, maxWorkers = (if n \<le> 0 then numCPU else n), results = []\<rparr>"

definition supportsParallel :: "'w ParallelInstaller \<Rightarrow> 'w \<Rightarrow> bool" where
  "supportsParallel pinst w =
     (if GetAvailableManagers (installer pinst) w = [] then False
      else (case SelectManager (installer pinst) w of
              None \<Rightarrow> False
            | Some manager \<Rightarrow>
                if Name manager = ''pacman'' then False
                else if Name manager = ''winget'' then True
                else if Name manager = ''yay'' then False
                else False))"

datatype reason = ReasonUnknown | ReasonManager string | ReasonTooFew | ReasonSupported int

record ParallelCapability =
  Supported :: bool
  RecommendedWorkers :: int
  Reason :: reason

definition CheckParallelCapability ::
  "int \<Rightarrow> 'w ParallelInstaller \<Rightarrow> string list \<Rightarrow> 'w \<Rightarrow> ParallelCapability" where
  "CheckParallelCapability numCPU pinst packages w =
     (let capability = \<lparr>Supported = False, RecommendedWorkers = 0, Reason = ReasonUnknown\<rparr>
      in if \<not> supportsParallel pinst w
         then capability\<lparr>Reason := ReasonManager
                (case SelectManager (installer pinst) w of
                   None \<Rightarrow> ''unknown'' | Some manager \<Rightarrow> Name manager)\<rparr>
         else if int (length packages) \<le> 1
         then capability\<lparr>Reason := ReasonTooFew\<rparr>
         else (let n = GetOptimalWorkerCount numCPU (int (length packages))
               in capability\<lparr>Supported := True, RecommendedWorkers := n,
                               Reason := ReasonSupported n\<rparr>))"

text \<open>
  The pool of \<^verbatim>\<open>InstallPackagesParallel\<close>. The channel \<^verbatim>\<open>packageChan\<close> is filled with
  the packages and closed before the workers start. The workers are goroutines: they
  interleave, and nothing but the append to \<^verbatim>\<open>pi.results\<close> is under a lock, so the calls
  that \<^verbatim>\<open>InstallPackage\<close> makes to the managers (\<^verbatim>\<open>IsAvailable\<close> for each registered
  manager, \<^verbatim>\<open>IsInstalled\<close>, \<^verbatim>\<open>Install\<close>) interleave with those of the other workers.
  Each call of a method of a manager is one step on the machine.

  A worker is at its outer \<^verbatim>\<open>select\<close> (\<open>Selecting\<close>); at the inner one with a package
  taken from the channel (\<open>Received\<close>); inside \<^verbatim>\<open>InstallPackage\<close>, going through the
  registered managers in \<^verbatim>\<open>GetAvailableManagers\<close> with those still to ask and those
  found available (\<open>Probing\<close>), about to ask the selected manager whether the package is
  installed (\<open>Checking\<close>), or about to call its \<^verbatim>\<open>Install\<close> (\<open>Calling\<close>); or it has
  returned. The semaphore has one slot per worker and a worker holds at most one, so
  sending to it never blocks.

  A schedule, a list of actions, says which worker moves next. \<open>Receive k\<close>: worker \<open>k\<close>
  takes the channel branch of the outer \<^verbatim>\<open>select\<close> and gets the next package, or finds
  the channel closed and returns nil. \<open>Acquire k\<close>: it takes the semaphore branch of the
  inner \<^verbatim>\<open>select\<close> and enters \<^verbatim>\<open>InstallPackage\<close>. \<open>Cancel k\<close>: at either \<^verbatim>\<open>select\<close>,
  the context being done, it takes that branch and returns \<^verbatim>\<open>ctx.Err()\<close>; a package it
  had received is dropped. \<open>Probe k\<close>: it asks the next manager whether it is available.
  \<open>Select k\<close>: all managers asked, it picks the one of lowest priority number, or ends
  with the no-manager result. \<open>Check k\<close>: it ends with the skipped result (not forced,
  \<^verbatim>\<open>IsInstalled\<close> true) or the dry-run result, or goes on to install. \<open>Complete k\<close>: it
  calls \<^verbatim>\<open>Install\<close> and ends with its outcome. A worker that ends a package appends the
  result to \<^verbatim>\<open>pi.results\<close> and is back at the outer \<^verbatim>\<open>select\<close>. An action that the
  worker cannot perform in its state changes nothing. A \<^verbatim>\<open>select\<close> with several ready
  branches picks any of them, so a worker may go on receiving while the context is done.
  The context derived by \<^verbatim>\<open>errgroup.WithContext\<close> is done exactly when its parent is, as
  a worker only returns an error when it is done already.

  \<open>run_pool\<close> follows the schedule and then lets the workers still alive run to their end
  one after the other (\<open>run_alone\<close>), so that \<^verbatim>\<open>g.Wait()\<close> always returns: every
  interleaving of the calls is the run of some schedule, and every schedule gives a
  complete run. \<open>installPackageWithProgress\<close> is the whole call run without interruption
  by another worker.
\<close>

datatype 'w worker =
    Selecting
  | Received string
  | Probing string "'w PackageManager list" "'w PackageManager list"
  | Checking string "'w PackageManager"
  | Calling string "'w PackageManager"
  | Returned "error option"

record 'w pool =
  packageChan :: "string list"
  workers :: "'w worker list"
  pool_results :: "InstallResult list"
  pool_world :: 'w

datatype action =
  Receive nat | Acquire nat | Cancel nat | Probe nat | Select nat | Check nat | Complete nat

definition installPackageWithProgress ::
  "'w Installer \<Rightarrow> 'w Context \<Rightarrow> string \<Rightarrow> InstallOptions \<Rightarrow> 'w pool \<Rightarrow> error option \<times> 'w pool" where
  "installPackageWithProgress i ctx pkg opts st =
     (case InstallPackage i ctx pkg opts (pool_world st) of
        ((result, err), w') \<Rightarrow>
          (err, st\<lparr>pool_results := pool_results st @ [result], pool_world := w'\<rparr>))"

definition selected :: "'w PackageManager list \<Rightarrow> 'w PackageManager option" where
  "selected available =
     (case available of
        [] \<Rightarrow> None
      | first # rest \<Rightarrow>
          Some (foldl (\<lambda>best manager. if Priority manager < Priority best then manager else best)
                  first rest))"

definition worker_at :: "'w pool \<Rightarrow> nat \<Rightarrow> 'w worker option" where
  "worker_at st k = (if k < length (workers st) then Some (workers st ! k) else None)"

definition set_worker :: "nat \<Rightarrow> 'w worker \<Rightarrow> 'w pool \<Rightarrow> 'w pool" where
  "set_worker k ws st = st\<lparr>workers := (workers st)[k := ws]\<rparr>"

definition finish :: "nat \<Rightarrow> InstallResult \<Rightarrow> 'w pool \<Rightarrow> 'w pool" where
  "finish k result st = set_worker k Selecting (st\<lparr>pool_results := pool_results st @ [result]\<rparr>)"

fun step :: "'w Installer \<Rightarrow> 'w Context \<Rightarrow> InstallOptions \<Rightarrow> 'w pool \<Rightarrow> action \<Rightarrow> 'w pool" where
  "step i ctx opts st (Receive k) =
     (case worker_at st k of
        Some Selecting \<Rightarrow>
          (case packageChan st of
             [] \<Rightarrow> set_worker k (Returned None) st
           | pkg # rest \<Rightarrow> set_worker k (Received pkg) (st\<lparr>packageChan := rest\<rparr>))
      | _ \<Rightarrow> st)"
| "step i ctx opts st (Acquire k) =
     (case worker_at st k of
        Some (Received pkg) \<Rightarrow> set_worker k (Probing pkg i []) st
      | _ \<Rightarrow> st)"
| "step i ctx opts st (Cancel k) =
     (if ctx (pool_world st) then
        (case worker_at st k of
           Some Selecting \<Rightarrow> set_worker k (Returned (Some ErrContext)) st
         | Some (Received pkg) \<Rightarrow> set_worker k (Returned (Some ErrContext)) st
         | _ \<Rightarrow> st)
      else st)"
| "step i ctx opts st (Probe k) =
     (case worker_at st k of
        Some (Probing pkg (manager # todo) available) \<Rightarrow>
          set_worker k
            (Probing pkg todo
               (if IsAvailable manager (pool_world st) then available @ [manager] else available))
            st
      | _ \<Rightarrow> st)"
| "step i ctx opts st (Select k) =
     (case worker_at st k of
        Some (Probing pkg [] available) \<Rightarrow>
          (case selected available of
             None \<Rightarrow>
               finish k \<lparr>PackageName = pkg, Manager = [], Success = False, Skipped = False,
                         Error = Some ErrNoManager\<rparr> st
           | Some manager \<Rightarrow> set_worker k (Checking pkg manager) st)
      | _ \<Rightarrow> st)"
| "step i ctx opts st (Check k) =
     (case worker_at st k of
        Some (Checking pkg manager) \<Rightarrow>
          (let result = \<lparr>PackageName = pkg, Manager = Name manager, Success = False,
                          Skipped = False, Error = None\<rparr>
           in if \<not> Force opts \<and> IsInstalled manager pkg (pool_world st)
              then finish k (result\<lparr>Success := True, Skipped := True\<rparr>) st
              else if DryRun opts
              then finish k (result\<lparr>Success := True\<rparr>) st
              else set_worker k (Calling pkg manager) st)
      | _ \<Rightarrow> st)"
| "step i ctx opts st (Complete k) =
     (case worker_at st k of
        Some (Calling pkg manager) \<Rightarrow>
          (let result = \<lparr>PackageName = pkg, Manager = Name manager, Success = False,
                          Skipped = False, Error = None\<rparr>
           in case Install manager ctx pkg (pool_world st) of
                (Some err, w') \<Rightarrow> finish k (result\<lparr>Error := Some err\<rparr>) (st\<lparr>pool_world := w'\<rparr>)
              | (None, w') \<Rightarrow> finish k (result\<lparr>Success := True\<rparr>) (st\<lparr>pool_world := w'\<rparr>))
      | _ \<Rightarrow> st)"

definition phases :: "'w Installer \<Rightarrow> nat \<Rightarrow> action list" where
  "phases i k = replicate (length i) (Probe k) @ [Select k, Check k, Complete k]"

definition run_alone :: "'w Installer \<Rightarrow> 'w Context \<Rightarrow> InstallOptions \<Rightarrow> 'w pool \<Rightarrow> nat \<Rightarrow> 'w pool" where
  "run_alone i ctx opts st k =
     (let st1 = foldl (step i ctx opts) st (Acquire k # phases i k);
          st2 = foldl (\<lambda>s pkg. foldl (step i ctx opts) s (Receive k # Acquire k # phases i k))
                  st1 (packageChan st1)
      in step i ctx opts st2 (Receive k))"

definition run_pool ::
  "'w Installer \<Rightarrow> 'w Context \<Rightarrow> InstallOptions \<Rightarrow> action list \<Rightarrow> 'w pool \<Rightarrow> 'w pool" where
  "run_pool i ctx opts sched st =
     (let st' = foldl (step i ctx opts) st sched
      in foldl (run_alone i ctx opts) st' [0..<length (workers st')])"

text \<open>
  \<^verbatim>\<open>g.Wait()\<close> yields the first error a worker returned. \<^verbatim>\<open>InstallPackagesParallel\<close>
  logs it and goes on: it returns a copy of \<^verbatim>\<open>pi.results\<close> and a nil error.
\<close>

definition Wait :: "'w worker list \<Rightarrow> error option" where
  "Wait ws = (case [e. Returned (Some e) \<leftarrow> ws] of [] \<Rightarrow> None | e # es \<Rightarrow> Some e)"

definition start_pool :: "'w ParallelInstaller \<Rightarrow> string list \<Rightarrow> 'w \<Rightarrow> 'w pool" where
  "start_pool pinst packages w =
     \<lparr>packageChan = packages,
      workers = replicate (nat (maxWorkers pinst)) Selecting,
      pool_results = results pinst,
      pool_world = w\<rparr>"

definition InstallPackagesParallel ::
  "'w ParallelInstaller \<Rightarrow> 'w Context \<Rightarrow> string list \<Rightarrow> InstallOptions \<Rightarrow> action list \<Rightarrow> 'w
     \<Rightarrow> (InstallResult list \<times> error option) \<times> 'w ParallelInstaller \<times> 'w" where
  "InstallPackagesParallel pinst ctx packages opts sched w =
     (if \<not> supportsParallel pinst w
      then (case InstallPackages (installer pinst) ctx packages opts w of
              (r, w') \<Rightarrow> (r, pinst, w'))
      else (let st = run_pool (installer pinst) ctx opts sched (start_pool pinst packages w);
                err = Wait (workers st)
            in ((pool_results st, None), pinst\<lparr>results := pool_results st\<rparr>, pool_world st)))"


subsection \<open>install.go: choosing the executor\<close>

text \<open>The part of \<^verbatim>\<open>runInstall\<close> that runs the batch (``check the parallel capability'').\<close>

definition runInstall_batch ::
  "int \<Rightarrow> 'w Installer \<Rightarrow> 'w Context \<Rightarrow> string list \<Rightarrow> InstallOptions \<Rightarrow> action list \<Rightarrow> 'w
     \<Rightarrow> (InstallResult list \<times> error option) \<times> 'w" where
  "runInstall_batch numCPU inst ctx args opts sched w =
     (if Parallel opts then
        (let parallelInst = NewParallelInstaller numCPU inst (MaxWorkers opts);
             capability = CheckParallelCapability numCPU parallelInst args w
         in if Supported capability
            then (case InstallPackagesParallel parallelInst ctx args opts sched w of
                    (r, parallelInst', w') \<Rightarrow> (r, w'))
            else InstallPackages inst ctx args opts w)
      else InstallPackages inst ctx args opts w)"

subsection \<open>progress.go\<close>

text \<open>
  The channel \<^verbatim>\<open>events\<close> of a progress manager is its buffer (capacity 100) and a flag
  telling whether it has been closed; \<open>logger\<close> holds the warnings the manager has logged
  and \<open>progressBar\<close> tells whether there is a progress bar. Sending on a closed channel
  and closing it twice panic. \<open>processEvents_step\<close> is one turn of the consumer loop.
\<close>

datatype ProgressEventType =
  ProgressStart | ProgressUpdate | ProgressSuccess | ProgressFail | ProgressSkip

record ProgressEvent =
  Type :: ProgressEventType
  ev_PackageName :: string
  ev_Manager :: string
  Message :: string
  ev_Error :: "error option"
  Timestamp :: nat

datatype logline = WarnEventDropped

datatype panic = SendOnClosedChannel | CloseOfClosedChannel

record ProgressManager =
  pm_packages :: "string list"
  events :: "ProgressEvent list"
  events_closed :: bool
  pm_results :: "string \<rightharpoonup> InstallResult"
  progressBar :: bool
  logger :: "logline list"
  started :: bool
  totalPkgs :: int
  completedPkgs :: int

definition NewProgressManager :: "string list \<Rightarrow> logline list \<Rightarrow> bool \<Rightarrow> ProgressManager" where
  "NewProgressManager packages lg quiet =
     \<lparr>pm_packages = packages, events = [], events_closed = False, pm_results = Map.empty,
      progressBar = (\<not> quiet), logger = lg, started = False,
      totalPkgs = int (length packages), completedPkgs = 0\<rparr>"

definition Start :: "ProgressManager \<Rightarrow> ProgressManager" where
  "Start pm = pm\<lparr>started := True\<rparr>"

definition SendEvent :: "ProgressEvent \<Rightarrow> nat \<Rightarrow> ProgressManager \<Rightarrow> panic + ProgressManager" where
  "SendEvent event now pm =
     (if started pm then
        (let event = event\<lparr>Timestamp := now\<rparr>
         in if events_closed pm then Inl SendOnClosedChannel
            else if length (events pm) < 100 then Inr (pm\<lparr>events := events pm @ [event]\<rparr>)
            else Inr (pm\<lparr>logger := logger pm @ [WarnEventDropped]\<rparr>))
      else Inr pm)"

definition handleEvent :: "ProgressEvent \<Rightarrow> ProgressManager \<Rightarrow> ProgressManager" where
  "handleEvent event pm =
     (case Type event of
        ProgressStart \<Rightarrow> pm
      | ProgressUpdate \<Rightarrow> pm
      | ProgressSuccess \<Rightarrow> pm\<lparr>completedPkgs := completedPkgs pm + 1\<rparr>
      | ProgressFail \<Rightarrow> pm\<lparr>completedPkgs := completedPkgs pm + 1\<rparr>
      | ProgressSkip \<Rightarrow> pm\<lparr>completedPkgs := completedPkgs pm + 1\<rparr>)"

definition processEvents_step :: "ProgressManager \<Rightarrow> ProgressManager" where
  "processEvents_step pm =
     (case events pm of
        [] \<Rightarrow> pm
      | event # rest \<Rightarrow> handleEvent event (pm\<lparr>events := rest\<rparr>))"

definition Close :: "ProgressManager \<Rightarrow> panic + ProgressManager" where
  "Close pm =
     (let pm = pm\<lparr>started := False\<rparr>
      in if events_closed pm then Inl CloseOfClosedChannel
         else Inr (pm\<lparr>events_closed := True\<rparr>))"

definition AddResult :: "InstallResult \<Rightarrow> ProgressManager \<Rightarrow> ProgressManager" where
  "AddResult result pm = pm\<lparr>pm_results := (pm_results pm)(PackageName result \<mapsto> result)\<rparr>"

subsection \<open>Reference notions for the batch results\<close>

text \<open>
  \<open>install_each\<close> applies \<open>InstallPackage\<close> to every package of a list in turn, whatever
  the outcomes, and \<open>upto_first_failure\<close> cuts a result list after its first failed
  entry; \<open>expected_results\<close> is the list the specification expects of the sequential
  batch when nothing cancels it. They follow the wording of the specification and serve to
  state what the two executors return.
\<close>

fun install_each ::
  "'w Installer \<Rightarrow> 'w Context \<Rightarrow> InstallOptions \<Rightarrow> string list \<Rightarrow> 'w \<Rightarrow> InstallResult list \<times> 'w" where
  "install_each i ctx opts [] w = ([], w)"
| "install_each i ctx opts (pkg # pkgs) w =
     (case InstallPackage i ctx pkg opts w of
        ((result, err), w') \<Rightarrow>
          (case install_each i ctx opts pkgs w' of (rs, w'') \<Rightarrow> (result # rs, w'')))"

definition upto_first_failure :: "InstallResult list \<Rightarrow> InstallResult list" where
  "upto_first_failure rs = takeWhile Success rs @ take 1 (dropWhile Success rs)"

definition expected_results ::
  "'w Installer \<Rightarrow> 'w Context \<Rightarrow> InstallOptions \<Rightarrow> string list \<Rightarrow> 'w \<Rightarrow> InstallResult list" where
  "expected_results i ctx opts pkgs w =
     (if Force opts then fst (install_each i ctx opts pkgs w)
      else upto_first_failure (fst (install_each i ctx opts pkgs w)))"

definition outcome :: "InstallResult \<Rightarrow> string \<times> bool \<times> bool" where
  "outcome r = (PackageName r, Success r, Skipped r)"

text \<open>
  \<open>installs\<close> is the machine after a manager has installed a series of packages, and
  \<open>reached\<close> the machine after the manager selected at the start has. \<open>first_result\<close> is
  the result \<open>InstallPackage\<close> gives for a package on the machine as it is at the start. A
  list of packages is \<open>undisturbed\<close> when, in every state reached by installing some of
  them, each once: the context is not done, every registered manager is available as it
  was at the start, and for each listed package not yet installed the selected manager
  answers \<^verbatim>\<open>IsInstalled\<close> as at the start and its \<^verbatim>\<open>Install\<close> succeeds or fails as at
  the start.
\<close>

definition installs :: "'w PackageManager \<Rightarrow> 'w Context \<Rightarrow> string list \<Rightarrow> 'w \<Rightarrow> 'w" where
  "installs m ctx qs w = foldl (\<lambda>w q. snd (Install m ctx q w)) w qs"

definition reached :: "'w Installer \<Rightarrow> 'w Context \<Rightarrow> string list \<Rightarrow> 'w \<Rightarrow> 'w" where
  "reached i ctx qs w = (case SelectManager i w of None \<Rightarrow> w | Some m \<Rightarrow> installs m ctx qs w)"

definition first_result ::
  "'w Installer \<Rightarrow> 'w Context \<Rightarrow> InstallOptions \<Rightarrow> 'w \<Rightarrow> string \<Rightarrow> InstallResult" where
  "first_result i ctx opts w p = fst (fst (InstallPackage i ctx p opts w))"

definition undisturbed :: "'w Installer \<Rightarrow> 'w Context \<Rightarrow> string list \<Rightarrow> 'w \<Rightarrow> bool" where
  "undisturbed i ctx pkgs w \<longleftrightarrow>
     (\<forall>qs. distinct qs \<and> set qs \<subseteq> set pkgs \<longrightarrow>
        \<not> ctx (reached i ctx qs w)
        \<and> (\<forall>m \<in> set i. IsAvailable m (reached i ctx qs w) = IsAvailable m w)
        \<and> (\<forall>m p. SelectManager i w = Some m \<and> p \<in> set pkgs \<and> p \<notin> set qs \<longrightarrow>
              IsInstalled m p (reached i ctx qs w) = IsInstalled m p w
              \<and> fst (Install m ctx p (reached i ctx qs w)) = fst (Install m ctx p w)))"

subsection \<open>Notions for reasoning about the pool\<close>

text \<open>
  \<open>pending\<close> lists the packages a pool still has to process: those held by a worker and
  those in the channel. A pool is \<open>staffed\<close> when no worker has left while packages remain
  in the channel, and \<open>tidy\<close> when no worker has more managers to ask than are registered.
  A worker \<open>fits\<close> the machine of the start when what it has found out so far is what it
  would have found out there. A pool is \<open>sound\<close> for a list of packages when the packages
  finished and the pending ones make up the list, the machine is the one reached by the
  installations made, the results are those of the finished packages on the machine of
  the start, and every worker fits.
\<close>

fun held :: "'w worker \<Rightarrow> string list" where
  "held (Received pkg) = [pkg]"
| "held (Probing pkg todo available) = [pkg]"
| "held (Checking pkg manager) = [pkg]"
| "held (Calling pkg manager) = [pkg]"
| "held Selecting = []"
| "held (Returned err) = []"

definition pending :: "'w pool \<Rightarrow> string list" where
  "pending st = concat (map held (workers st)) @ packageChan st"

fun actor :: "action \<Rightarrow> nat" where
  "actor (Receive k) = k"
| "actor (Acquire k) = k"
| "actor (Cancel k) = k"
| "actor (Probe k) = k"
| "actor (Select k) = k"
| "actor (Check k) = k"
| "actor (Complete k) = k"

definition alone_schedule :: "'w Installer \<Rightarrow> nat \<Rightarrow> nat \<Rightarrow> action list" where
  "alone_schedule i k n =
     (Acquire k # phases i k) @ concat (replicate n (Receive k # Acquire k # phases i k))
       @ [Receive k]"

definition staffed :: "'w pool \<Rightarrow> bool" where
  "staffed st \<longleftrightarrow>
     (packageChan st \<noteq> [] \<longrightarrow>
        workers st \<noteq> [] \<and> (\<forall>x \<in> set (workers st). \<forall>err. x \<noteq> Returned err))"

fun short :: "nat \<Rightarrow> 'w worker \<Rightarrow> bool" where
  "short n (Probing pkg todo available) = (length todo \<le> n)"
| "short n x = True"

definition tidy :: "'w Installer \<Rightarrow> 'w pool \<Rightarrow> bool" where
  "tidy i st \<longleftrightarrow> (\<forall>x \<in> set (workers st). short (length i) x)"

fun fits :: "'w Installer \<Rightarrow> InstallOptions \<Rightarrow> 'w \<Rightarrow> 'w worker \<Rightarrow> bool" where
  "fits i opts w (Probing pkg todo available) =
     (\<exists>asked. i = asked @ todo \<and> available = filter (\<lambda>m. IsAvailable m w) asked)"
| "fits i opts w (Checking pkg manager) = (SelectManager i w = Some manager)"
| "fits i opts w (Calling pkg manager) =
     (SelectManager i w = Some manager \<and> \<not> (\<not> Force opts \<and> IsInstalled manager pkg w)
      \<and> \<not> DryRun opts)"
| "fits i opts w Selecting = True"
| "fits i opts w (Received pkg) = True"
| "fits i opts w (Returned err) = True"

definition sound ::
  "'w Installer \<Rightarrow> 'w Context \<Rightarrow> InstallOptions \<Rightarrow> string list \<Rightarrow> 'w \<Rightarrow> 'w pool \<Rightarrow> bool" where
  "sound i ctx opts pkgs w st \<longleftrightarrow>
     (\<exists>qs fin. distinct qs \<and> set qs \<subseteq> set fin
        \<and> mset fin + mset (pending st) = mset pkgs
        \<and> pool_world st = reached i ctx qs w
        \<and> pool_results st = map (first_result i ctx opts w) fin
        \<and> (\<forall>x \<in> set (workers st). fits i opts w x))"

subsection \<open>A machine to run the model on\<close>

text \<open>
  A small machine for concrete runs: the executables on the PATH, the installed packages,
  the packages whose install command fails, and a clock. An install command takes two
  ticks of the clock; it is killed when the context is done as it starts or after its
  first tick. A context with a deadline is done once the clock has reached it. Installing
  \<open>Meta.Pkg\<close> brings \<open>Dep.Pkg\<close> along (\<open>brings\<close>).
\<close>

record machine =
  binaries :: "string set"
  packages :: "string set"
  broken :: "string set"
  clock :: nat

definition operand :: "string list \<Rightarrow> string" where
  "operand argv = (if hd argv = ''winget'' then argv ! 3 else last argv)"

definition brings :: "string \<Rightarrow> string set" where
  "brings p = (if p = ''Meta.Pkg'' then {''Meta.Pkg'', ''Dep.Pkg''} else {p})"

definition install_cmd :: "machine Context \<Rightarrow> string \<Rightarrow> machine \<Rightarrow> (bool \<times> string) \<times> machine" where
  "install_cmd ctx p w =
     (if ctx w then ((False, ''signal: killed''), w)
      else (let w1 = w\<lparr>clock := Suc (clock w)\<rparr>
            in if ctx w1 then ((False, ''signal: killed''), w1)
               else (let w2 = w1\<lparr>clock := Suc (clock w1)\<rparr>
                     in if p \<in> broken w then ((False, ''error: target not found''), w2)
                        else ((True, []), w2\<lparr>packages := brings p \<union> packages w\<rparr>))))"

definition machine_os :: "string \<Rightarrow> machine os" where
  "machine_os goos =
     \<lparr>GOOS = goos,
      LookPath = (\<lambda>file w. file \<in> binaries w),
      Stat = (\<lambda>name w. False),
      Run = (\<lambda>argv w.
        if hd argv = ''grep'' then (True, ''ID=arch'')
        else if hd argv = ''sudo'' then (True, ''test'')
        else (last argv \<in> packages w, [])),
      CombinedOutput = (\<lambda>ctx argv w. install_cmd ctx (operand argv) w)\<rparr>"

definition deadline :: "nat \<Rightarrow> machine Context" where
  "deadline d w = (d \<le> clock w)"

definition background :: "machine Context" where
  "background w = False"

definition arch_box :: machine where
  "arch_box = \<lparr>binaries = {''pacman'', ''sudo''}, packages = {''git''}, broken = {''nosuch''},
               clock = 0\<rparr>"

definition windows_box :: machine where
  "windows_box = \<lparr>binaries = {''winget''}, packages = {''Git.Git''}, broken = {''No.Such''},
                  clock = 0\<rparr>"

definition default_opts :: InstallOptions where
  "default_opts = \<lparr>Force = False, DryRun = False, Verbose = False, Quiet = False,
                   Parallel = False, MaxWorkers = 0\<rparr>"

section \<open>Properties\<close>

text \<open>
  C9. With \<open>c \<ge> 1\<close> logical CPUs, \<^verbatim>\<open>GetOptimalWorkerCount(n)\<close> is 1 for \<open>n \<le> 2\<close>, is
  \<open>n\<close> for \<open>2 < n \<le> c\<close>, and is \<open>floor(1.5 c)\<close>, hence at most \<open>ceil(1.5 c)\<close>, for
  \<open>n > c\<close>.
\<close>

theorem GetOptimalWorkerCount_cases:
  assumes "1 \<le> c"
  shows "(n \<le> 2 \<longrightarrow> GetOptimalWorkerCount c n = 1)
       \<and> (2 < n \<and> n \<le> c \<longrightarrow> GetOptimalWorkerCount c n = n)
       \<and> (c < n \<longrightarrow> GetOptimalWorkerCount c n = \<lfloor>1.5 * real_of_int c\<rfloor>
                 \<and> GetOptimalWorkerCount c n \<le> \<lceil>1.5 * real_of_int c\<rceil>)"
proof (intro conjI impI)
  show "GetOptimalWorkerCount c n = 1" if "n \<le> 2"
    using that by (simp add: GetOptimalWorkerCount_def)
  show "GetOptimalWorkerCount c n = n" if "2 < n \<and> n \<le> c"
    using that by (simp add: GetOptimalWorkerCount_def)
  show fl: "GetOptimalWorkerCount c n = \<lfloor>1.5 * real_of_int c\<rfloor>" if "c < n"
  proof (cases "n \<le> 2")
    case True
    with that assms have "c = 1" by linarith
    with True show ?thesis by (simp add: GetOptimalWorkerCount_def)
  next
    case False
    with that show ?thesis by (simp add: GetOptimalWorkerCount_def mult.commute)
  qed
  show "GetOptimalWorkerCount c n \<le> \<lceil>1.5 * real_of_int c\<rceil>" if "c < n"
    using fl [OF that] by (simp add: floor_le_ceiling)
qed

theorem GetOptimalWorkerCount_cases_witness:
  "(1::int) \<le> 4
   \<and> GetOptimalWorkerCount 4 1 = 1 \<and> GetOptimalWorkerCount 4 2 = 1
   \<and> GetOptimalWorkerCount 4 3 = 3 \<and> GetOptimalWorkerCount 4 4 = 4
   \<and> GetOptimalWorkerCount 4 9 = 6"
proof -
  have h: "(1::int) \<le> 4" by simp
  have six: "\<lfloor>1.5 * real_of_int 4\<rfloor> = (6::int)" by simp
  show ?thesis
    using GetOptimalWorkerCount_cases [OF h, of 1] GetOptimalWorkerCount_cases [OF h, of 2]
      GetOptimalWorkerCount_cases [OF h, of 3] GetOptimalWorkerCount_cases [OF h, of 4]
      GetOptimalWorkerCount_cases [OF h, of 9] six
    by simp
qed

subsection \<open>Selecting a manager\<close>

lemma SelectManager_map:
  assumes "\<And>m. IsAvailable (f m) = IsAvailable m" "\<And>m. Priority (f m) = Priority m"
  shows "SelectManager (map f i) w = map_option f (SelectManager i w)"
proof -
  have av: "GetAvailableManagers (map f i) w = map f (GetAvailableManagers i w)"
    by (simp add: GetAvailableManagers_def filter_map o_def assms)
  have fo: "foldl (\<lambda>best manager. if Priority manager < Priority best then manager else best)
              (f b) (map f rest)
            = f (foldl (\<lambda>best manager. if Priority manager < Priority best then manager else best)
                   b rest)" for b rest
    by (induction rest arbitrary: b) (simp_all add: assms)
  show ?thesis
    by (simp add: SelectManager_def av fo split: list.splits)
qed

lemma InitializeManagers_eq:
  "InitializeManagers sys = [YayManager sys, PacmanManager sys, WingetManager sys]"
  by (simp add: InitializeManagers_def RegisterManager_def YayManager_def PacmanManager_def
      WingetManager_def)

lemma SelectManager_arch_box:
  "SelectManager (InitializeManagers (machine_os ''linux'')) (arch_box\<lparr>packages := P, clock := c\<rparr>)
     = Some (PacmanManager (machine_os ''linux''))"
  by (simp add: InitializeManagers_eq SelectManager_def GetAvailableManagers_def
      YayManager_def PacmanManager_def WingetManager_def Yay_IsAvailable_def Winget_IsAvailable_def
      machine_os_def arch_box_def)

lemma SelectManager_windows_box:
  "SelectManager (InitializeManagers (machine_os ''windows''))
     (windows_box\<lparr>packages := P, clock := c\<rparr>)
     = Some (WingetManager (machine_os ''windows''))"
  by (simp add: InitializeManagers_eq SelectManager_def GetAvailableManagers_def
      YayManager_def PacmanManager_def WingetManager_def Yay_IsAvailable_def Winget_IsAvailable_def
      machine_os_def windows_box_def)

lemma SelectManager_arch_box0:
  "SelectManager (InitializeManagers (machine_os ''linux'')) arch_box
     = Some (PacmanManager (machine_os ''linux''))"
  using SelectManager_arch_box [where P = "packages arch_box" and c = "clock arch_box"] by simp

lemma SelectManager_windows_box0:
  "SelectManager (InitializeManagers (machine_os ''windows'')) windows_box
     = Some (WingetManager (machine_os ''windows''))"
  using SelectManager_windows_box [where P = "packages windows_box" and c = "clock windows_box"]
  by simp

subsection \<open>Runs on the two machines\<close>

lemma arch_box_eq: "arch_box = arch_box\<lparr>packages := {''git''}, clock := 0\<rparr>"
  by (simp add: arch_box_def)

lemma windows_box_eq: "windows_box = windows_box\<lparr>packages := {''Git.Git''}, clock := 0\<rparr>"
  by (simp add: windows_box_def)

lemma box_fields [simp]:
  "broken arch_box = {''nosuch''}" "broken windows_box = {''No.Such''}"
  by (simp_all add: arch_box_def windows_box_def)

lemma brings_plain [simp]: "p \<noteq> ''Meta.Pkg'' \<Longrightarrow> brings p = {p}"
  by (simp add: brings_def)

lemma install_cmd_background:
  "install_cmd background p w =
     (if p \<in> broken w
      then ((False, ''error: target not found''), w\<lparr>clock := Suc (Suc (clock w))\<rparr>)
      else ((True, []),
            w\<lparr>packages := brings p \<union> packages w, clock := Suc (Suc (clock w))\<rparr>))"
  by (simp add: install_cmd_def background_def)

lemma InstallPackage_arch_box:
  assumes "p \<notin> P" and "\<not> DryRun opts"
  shows "InstallPackage (InitializeManagers (machine_os ''linux'')) ctx p opts
           (arch_box\<lparr>packages := P, clock := k\<rparr>)
   = (case install_cmd ctx p (arch_box\<lparr>packages := P, clock := k\<rparr>) of
        ((ok, output), w') \<Rightarrow>
          ((\<lparr>PackageName = p, Manager = ''pacman'', Success = ok, Skipped = False,
             Error = (if ok then None else Some ErrExit)\<rparr>,
            if ok then None else Some ErrExit), w'))"
  using assms
  by (simp add: InstallPackage_def SelectManager_arch_box Let_def)
     (auto simp: PacmanManager_def Pacman_Install_def Pacman_IsInstalled_def machine_os_def
       operand_def arch_box_def Let_def split: prod.splits)

lemma InstallPackage_windows_box:
  assumes "Force opts \<or> p \<notin> P" and "\<not> DryRun opts"
  shows "InstallPackage (InitializeManagers (machine_os ''windows'')) ctx p opts
           (windows_box\<lparr>packages := P, clock := k\<rparr>)
   = (case install_cmd ctx p (windows_box\<lparr>packages := P, clock := k\<rparr>) of
        ((ok, output), w') \<Rightarrow>
          ((\<lparr>PackageName = p, Manager = ''winget'', Success = ok, Skipped = False,
             Error = (if ok then None else Some ErrExit)\<rparr>,
            if ok then None else Some ErrExit), w'))"
  using assms
  by (simp add: InstallPackage_def SelectManager_windows_box Let_def)
     (auto simp: WingetManager_def Winget_Install_def Winget_IsInstalled_def machine_os_def
       operand_def windows_box_def install_cmd_def Let_def split: prod.splits)

lemma InstallPackage_windows_box_present:
  assumes "\<not> Force opts" and "p \<in> P"
  shows "InstallPackage (InitializeManagers (machine_os ''windows'')) ctx p opts
           (windows_box\<lparr>packages := P, clock := k\<rparr>)
   = ((\<lparr>PackageName = p, Manager = ''winget'', Success = True, Skipped = True,
               Error = None\<rparr>, None), windows_box\<lparr>packages := P, clock := k\<rparr>)"
  using assms
  by (simp add: InstallPackage_def SelectManager_windows_box Let_def)
     (auto simp: WingetManager_def Winget_IsInstalled_def machine_os_def windows_box_def)

subsection \<open>Single-package installation\<close>

text \<open>
  C7. When the selected manager reports the package as installed and \<^verbatim>\<open>force\<close> is not
  set, \<^verbatim>\<open>InstallPackage\<close> returns a result with \<open>Success\<close> and \<open>Skipped\<close> set and
  a nil error, and the manager's \<^verbatim>\<open>Install\<close> is not called: the machine is returned as
  it was, and the outcome is the same whatever the \<^verbatim>\<open>Install\<close> methods of the
  registered managers are.
\<close>

theorem InstallPackage_skips_installed:
  assumes "SelectManager i w = Some m" and "IsInstalled m p w" and "\<not> Force opts"
  shows "InstallPackage i ctx p opts w =
           ((\<lparr>PackageName = p, Manager = Name m, Success = True, Skipped = True, Error = None\<rparr>,
             None), w)
       \<and> (\<forall>f. InstallPackage (map (\<lambda>m. m\<lparr>Install := f m\<rparr>) i) ctx p opts w
               = InstallPackage i ctx p opts w)"
proof
  show "InstallPackage i ctx p opts w =
           ((\<lparr>PackageName = p, Manager = Name m, Success = True, Skipped = True, Error = None\<rparr>,
             None), w)"
    using assms by (simp add: InstallPackage_def)
  show "\<forall>f. InstallPackage (map (\<lambda>m. m\<lparr>Install := f m\<rparr>) i) ctx p opts w
               = InstallPackage i ctx p opts w"
  proof
    fix f :: "'a PackageManager \<Rightarrow> 'a Context \<Rightarrow> string \<Rightarrow> 'a \<Rightarrow> error option \<times> 'a"
    have "SelectManager (map (\<lambda>m. m\<lparr>Install := f m\<rparr>) i) w = Some (m\<lparr>Install := f m\<rparr>)"
      using assms(1) by (simp add: SelectManager_map)
    then show "InstallPackage (map (\<lambda>m. m\<lparr>Install := f m\<rparr>) i) ctx p opts w
               = InstallPackage i ctx p opts w"
      using assms by (simp add: InstallPackage_def)
  qed
qed

theorem InstallPackage_skips_installed_witness:
  "InstallPackage (InitializeManagers (machine_os ''linux'')) background ''git'' default_opts arch_box
     = ((\<lparr>PackageName = ''git'', Manager = ''pacman'', Success = True, Skipped = True,
          Error = None\<rparr>, None), arch_box)"
proof -
  have inst: "IsInstalled (PacmanManager (machine_os ''linux'')) ''git'' arch_box"
    by (simp add: PacmanManager_def Pacman_IsInstalled_def machine_os_def arch_box_def)
  have nf: "\<not> Force default_opts" by (simp add: default_opts_def)
  show ?thesis
    using InstallPackage_skips_installed [OF SelectManager_arch_box0 inst nf, of background]
    by (simp add: PacmanManager_def)
qed

text \<open>
  C8. With \<^verbatim>\<open>dry-run\<close> set, \<^verbatim>\<open>InstallPackage\<close> never calls a manager's
  \<^verbatim>\<open>Install\<close>: the outcome does not depend on the \<^verbatim>\<open>Install\<close> methods, the machine
  is unchanged, and \<^verbatim>\<open>IsInstalled\<close> answers after the call what it answered before.
  Whenever a manager is selected, the result is a success and the error is nil.
\<close>

theorem InstallPackage_dry_run:
  assumes "DryRun opts"
  shows "snd (InstallPackage i ctx p opts w) = w
       \<and> (\<forall>f. InstallPackage (map (\<lambda>m. m\<lparr>Install := f m\<rparr>) i) ctx p opts w
               = InstallPackage i ctx p opts w)
       \<and> (\<forall>m' q. IsInstalled m' q (snd (InstallPackage i ctx p opts w)) = IsInstalled m' q w)
       \<and> (\<forall>m. SelectManager i w = Some m \<longrightarrow>
             Success (fst (fst (InstallPackage i ctx p opts w)))
             \<and> snd (fst (InstallPackage i ctx p opts w)) = None)"
proof -
  have same: "snd (InstallPackage i ctx p opts w) = w"
    using assms by (auto simp: InstallPackage_def Let_def split: option.splits)
  have succeeds: "Success (fst (fst (InstallPackage i ctx p opts w)))
      \<and> snd (fst (InstallPackage i ctx p opts w)) = None" if "SelectManager i w = Some m" for m
    using assms that by (auto simp: InstallPackage_def Let_def)
  have indep: "InstallPackage (map (\<lambda>m. m\<lparr>Install := f m\<rparr>) i) ctx p opts w
               = InstallPackage i ctx p opts w" for f
  proof -
    have "SelectManager (map (\<lambda>m. m\<lparr>Install := f m\<rparr>) i) w
        = map_option (\<lambda>m. m\<lparr>Install := f m\<rparr>) (SelectManager i w)"
      by (simp add: SelectManager_map)
    then show ?thesis
      using assms by (cases "SelectManager i w") (auto simp: InstallPackage_def Let_def)
  qed
  show ?thesis
    using indep succeeds by (simp add: same)
qed

theorem InstallPackage_dry_run_witness:
  "Success (fst (fst (InstallPackage (InitializeManagers (machine_os ''linux'')) background ''vim''
                        (default_opts\<lparr>DryRun := True\<rparr>) arch_box)))
   \<and> snd (InstallPackage (InitializeManagers (machine_os ''linux'')) background ''vim''
            (default_opts\<lparr>DryRun := True\<rparr>) arch_box) = arch_box
   \<and> \<not> IsInstalled (PacmanManager (machine_os ''linux'')) ''vim''
          (snd (InstallPackage (InitializeManagers (machine_os ''linux'')) background ''vim''
                  (default_opts\<lparr>DryRun := True\<rparr>) arch_box))"
proof -
  have dr: "DryRun (default_opts\<lparr>DryRun := True\<rparr>)" by simp
  have ni: "\<not> IsInstalled (PacmanManager (machine_os ''linux'')) ''vim'' arch_box"
    by (simp add: PacmanManager_def Pacman_IsInstalled_def machine_os_def arch_box_def)
  note run = InstallPackage_dry_run [OF dr, of "InitializeManagers (machine_os ''linux'')"
      background "''vim''" arch_box]
  from run have w: "snd (InstallPackage (InitializeManagers (machine_os ''linux'')) background
      ''vim'' (default_opts\<lparr>DryRun := True\<rparr>) arch_box) = arch_box" by blast
  from run have s: "Success (fst (fst (InstallPackage (InitializeManagers (machine_os ''linux''))
      background ''vim'' (default_opts\<lparr>DryRun := True\<rparr>) arch_box)))"
    using SelectManager_arch_box0 by blast
  show ?thesis
    using s ni by (simp add: w)
qed

subsection \<open>Progress manager\<close>

text \<open>
  C10. On a progress manager that is not started (never started, as in quiet mode, or
  closed again), \<^verbatim>\<open>SendEvent\<close> returns normally and leaves the manager exactly as it
  was: nothing is queued and no warning is logged.
\<close>

theorem SendEvent_not_started:
  "(\<not> started pm \<longrightarrow> SendEvent event now pm = Inr pm)
   \<and> SendEvent event now (NewProgressManager pkgs lg quiet) = Inr (NewProgressManager pkgs lg quiet)
   \<and> (\<forall>pm'. Close pm = Inr pm' \<longrightarrow> SendEvent event now pm' = Inr pm')"
  by (auto simp: SendEvent_def NewProgressManager_def Close_def Let_def split: if_splits)

theorem SendEvent_not_started_witness:
  "SendEvent \<lparr>Type = ProgressStart, ev_PackageName = ''git'', ev_Manager = [], Message = [],
              ev_Error = None, Timestamp = 0\<rparr> 7 (NewProgressManager [''git''] [] True)
     = Inr (NewProgressManager [''git''] [] True)
   \<and> (\<exists>pm'. Close (Start (NewProgressManager [''git''] [] False)) = Inr pm'
        \<and> SendEvent \<lparr>Type = ProgressStart, ev_PackageName = ''git'', ev_Manager = [],
                      Message = [], ev_Error = None, Timestamp = 0\<rparr> 7 pm' = Inr pm')"
proof -
  let ?e = "\<lparr>Type = ProgressStart, ev_PackageName = ''git'', ev_Manager = [], Message = [],
              ev_Error = None, Timestamp = 0\<rparr>"
  have ns: "\<not> started (NewProgressManager [''git''] [] True)"
    by (simp add: NewProgressManager_def)
  obtain pm' where c: "Close (Start (NewProgressManager [''git''] [] False)) = Inr pm'"
    by (simp add: Close_def Start_def NewProgressManager_def)
  from SendEvent_not_started [of "NewProgressManager [''git''] [] True" ?e 7
      "[''git'']" "[]" True] ns
  have a: "SendEvent ?e 7 (NewProgressManager [''git''] [] True)
      = Inr (NewProgressManager [''git''] [] True)" by blast
  from SendEvent_not_started [of "Start (NewProgressManager [''git''] [] False)" ?e 7] c
  have b: "SendEvent ?e 7 pm' = Inr pm'" by blast
  show ?thesis using a b c by blast
qed

subsection \<open>Forced installation of a package that is present\<close>

lemma Pacman_Install_present:
  "Pacman_IsInstalled sys p w \<Longrightarrow> Pacman_Install sys ctx p w = (None, w)"
  by (simp add: Pacman_Install_def)

lemma Yay_Install_present:
  "checkPacmanLock sys w = None \<Longrightarrow> checkSudoPermissions sys w = None
     \<Longrightarrow> Yay_IsInstalled sys p w \<Longrightarrow> Yay_Install sys ctx p w = (None, w)"
  by (simp add: Yay_Install_def)

lemma managers_CombinedOutput_update [simp]:
  "IsAvailable (PacmanManager (sys\<lparr>CombinedOutput := run\<rparr>)) = IsAvailable (PacmanManager sys)"
  "IsAvailable (YayManager (sys\<lparr>CombinedOutput := run\<rparr>)) = IsAvailable (YayManager sys)"
  "IsAvailable (WingetManager (sys\<lparr>CombinedOutput := run\<rparr>)) = IsAvailable (WingetManager sys)"
  "IsInstalled (PacmanManager (sys\<lparr>CombinedOutput := run\<rparr>)) = IsInstalled (PacmanManager sys)"
  "IsInstalled (YayManager (sys\<lparr>CombinedOutput := run\<rparr>)) = IsInstalled (YayManager sys)"
  by (simp_all add: PacmanManager_def YayManager_def WingetManager_def Yay_IsAvailable_def
      Winget_IsAvailable_def isArchLinux_def Pacman_IsInstalled_def Yay_IsInstalled_def
      fun_eq_iff)

lemma SelectManager_initialized:
  "SelectManager (InitializeManagers sys) w =
     (if IsAvailable (YayManager sys) w then Some (YayManager sys)
      else if IsAvailable (PacmanManager sys) w then Some (PacmanManager sys)
      else if IsAvailable (WingetManager sys) w then Some (WingetManager sys)
      else None)"
  by (simp add: InitializeManagers_eq SelectManager_def GetAvailableManagers_def)
     (simp add: YayManager_def PacmanManager_def WingetManager_def)

lemma manager_names_differ:
  "YayManager sys \<noteq> PacmanManager sys'" "PacmanManager sys \<noteq> WingetManager sys'"
  "YayManager sys \<noteq> WingetManager sys'"
  by (simp_all add: YayManager_def PacmanManager_def WingetManager_def)

text \<open>
  C3. The claim asks that a forced, real (not dry-run) installation of a package the
  manager reports as present runs the manager's install command again. The code calls
  \<^verbatim>\<open>manager.Install\<close>, but \<^verbatim>\<open>PacmanManager.Install\<close> and
  \<^verbatim>\<open>YayManager.Install\<close> check \<^verbatim>\<open>IsInstalled\<close> themselves and return nil before
  they build the command. What the code does: with pacman selected, or yay selected and
  its lock and sudo checks passed, the result is a success that is not marked skipped,
  the machine is returned as it was, and the outcome is the same whatever the install
  command would do, so the command is not started and nothing is reinstalled.
\<close>

theorem forced_install_of_present_package:
  assumes sel: "SelectManager (InitializeManagers sys) w = Some m"
    and m: "m = PacmanManager sys
            \<or> m = YayManager sys \<and> checkPacmanLock sys w = None
                \<and> checkSudoPermissions sys w = None"
    and present: "IsInstalled m p w"
    and opts: "Force opts" "\<not> DryRun opts"
  shows "InstallPackage (InitializeManagers sys) ctx p opts w =
           ((\<lparr>PackageName = p, Manager = Name m, Success = True, Skipped = False,
              Error = None\<rparr>, None), w)
       \<and> (\<forall>run. InstallPackage (InitializeManagers (sys\<lparr>CombinedOutput := run\<rparr>)) ctx p opts w
                 = InstallPackage (InitializeManagers sys) ctx p opts w)"
proof -
  have inst: "Install m ctx p w = (None, w)"
    using m present
    by (auto simp: PacmanManager_def YayManager_def Pacman_Install_present Yay_Install_present)
  have run: "InstallPackage (InitializeManagers sys) ctx p opts w =
           ((\<lparr>PackageName = p, Manager = Name m, Success = True, Skipped = False,
              Error = None\<rparr>, None), w)"
    using sel opts inst by (simp add: InstallPackage_def)
  have same: "InstallPackage (InitializeManagers (sys\<lparr>CombinedOutput := run\<rparr>)) ctx p opts w
                 = InstallPackage (InitializeManagers sys) ctx p opts w" for run
  proof -
    let ?sys = "sys\<lparr>CombinedOutput := run\<rparr>"
    let ?m = "if m = PacmanManager sys then PacmanManager ?sys else YayManager ?sys"
    have sel': "SelectManager (InitializeManagers ?sys) w = Some ?m"
      using sel m by (auto simp: SelectManager_initialized manager_names_differ split: if_splits)
    have chk: "checkPacmanLock ?sys w = checkPacmanLock sys w"
      "checkSudoPermissions ?sys w = checkSudoPermissions sys w"
      by (simp_all add: checkPacmanLock_def checkSudoPermissions_def)
    have present': "IsInstalled ?m p w"
      using m present by (auto simp: manager_names_differ)
    have inst': "Install ?m ctx p w = (None, w)"
      using m present chk
      by (auto simp: PacmanManager_def YayManager_def Pacman_Install_def Yay_Install_def
          Pacman_IsInstalled_def Yay_IsInstalled_def)
    have name: "Name ?m = Name m"
      using m by (auto simp: PacmanManager_def YayManager_def)
    have "InstallPackage (InitializeManagers ?sys) ctx p opts w =
           ((\<lparr>PackageName = p, Manager = Name m, Success = True, Skipped = False,
              Error = None\<rparr>, None), w)"
      using sel' opts inst' name by (simp add: InstallPackage_def)
    with run show ?thesis by simp
  qed
  show ?thesis using run same by blast
qed

theorem forced_install_of_present_package_witness:
  "InstallPackage (InitializeManagers (machine_os ''linux'')) background ''git''
     (default_opts\<lparr>Force := True\<rparr>) arch_box
   = ((\<lparr>PackageName = ''git'', Manager = ''pacman'', Success = True, Skipped = False,
        Error = None\<rparr>, None), arch_box)"
proof -
  have m: "PacmanManager (machine_os ''linux'') = PacmanManager (machine_os ''linux'')
           \<or> PacmanManager (machine_os ''linux'') = YayManager (machine_os ''linux'')
              \<and> checkPacmanLock (machine_os ''linux'') arch_box = None
              \<and> checkSudoPermissions (machine_os ''linux'') arch_box = None"
    by simp
  have present: "IsInstalled (PacmanManager (machine_os ''linux'')) ''git'' arch_box"
    by (simp add: PacmanManager_def Pacman_IsInstalled_def machine_os_def arch_box_def)
  have opts: "Force (default_opts\<lparr>Force := True\<rparr>)" "\<not> DryRun (default_opts\<lparr>Force := True\<rparr>)"
    by (simp_all add: default_opts_def)
  from forced_install_of_present_package [OF SelectManager_arch_box0 m present opts, of background]
  show ?thesis by (simp add: PacmanManager_def)
qed

text \<open>
  \<^verbatim>\<open>WingetManager.Install\<close> has no such check: the same call on a Windows machine
  starts the install command (the clock of the machine advances).
\<close>

lemma winget_forced_install_runs:
  "InstallPackage (InitializeManagers (machine_os ''windows'')) background ''Git.Git''
     (default_opts\<lparr>Force := True\<rparr>) windows_box
   = ((\<lparr>PackageName = ''Git.Git'', Manager = ''winget'', Success = True, Skipped = False,
        Error = None\<rparr>, None), windows_box\<lparr>clock := 2\<rparr>)"
proof -
  have "InstallPackage (InitializeManagers (machine_os ''windows'')) background ''Git.Git''
     (default_opts\<lparr>Force := True\<rparr>) (windows_box\<lparr>packages := {''Git.Git''}, clock := 0\<rparr>)
   = ((\<lparr>PackageName = ''Git.Git'', Manager = ''winget'', Success = True, Skipped = False,
        Error = None\<rparr>, None), windows_box\<lparr>packages := {''Git.Git''}, clock := 2\<rparr>)"
    by (simp add: InstallPackage_windows_box install_cmd_background default_opts_def)
  then show ?thesis by (simp add: windows_box_def)
qed

subsection \<open>Choice of the executor and size of the pool\<close>

lemma supportsParallel_arch_box:
  "\<not> supportsParallel (NewParallelInstaller c (InitializeManagers (machine_os ''linux'')) n)
       arch_box"
  by (simp add: supportsParallel_def NewParallelInstaller_def SelectManager_arch_box0
      PacmanManager_def)

lemma supportsParallel_windows_box:
  "supportsParallel (NewParallelInstaller c (InitializeManagers (machine_os ''windows'')) n)
     (windows_box\<lparr>packages := P, clock := k\<rparr>)"
  by (simp add: supportsParallel_def NewParallelInstaller_def SelectManager_windows_box)
     (simp add: WingetManager_def InitializeManagers_eq GetAvailableManagers_def
       Winget_IsAvailable_def machine_os_def windows_box_def)

lemma supportsParallel_windows_box0:
  "supportsParallel (NewParallelInstaller c (InitializeManagers (machine_os ''windows'')) n)
     windows_box"
  using supportsParallel_windows_box [where P = "packages windows_box" and k = "clock windows_box"]
  by simp

lemma CheckParallelCapability_Supported:
  "Supported (CheckParallelCapability numCPU pinst pkgs w)
     \<longleftrightarrow> supportsParallel pinst w \<and> 1 < length pkgs"
  by (auto simp: CheckParallelCapability_def Let_def)

text \<open>
  C4. The claim says that \<^verbatim>\<open>InstallPackagesParallel\<close> never runs the packages through
  the sequential executor itself. It does: when the selected manager does not support
  parallel installation it returns exactly what \<^verbatim>\<open>InstallPackages\<close> returns on the same
  arguments, and leaves the parallel installer as it was. The caller \<^verbatim>\<open>runInstall\<close>
  falls back as well: whenever the capability check reports unsupported it calls
  \<^verbatim>\<open>InstallPackages\<close> directly, and it reaches the parallel entry point only with a
  manager that supports parallel installation.
\<close>

theorem InstallPackagesParallel_falls_back:
  "(\<not> supportsParallel pinst w \<longrightarrow>
      InstallPackagesParallel pinst ctx pkgs opts sched w =
        (fst (InstallPackages (installer pinst) ctx pkgs opts w), pinst,
         snd (InstallPackages (installer pinst) ctx pkgs opts w)))
   \<and> (\<not> Supported (CheckParallelCapability numCPU
                      (NewParallelInstaller numCPU inst (MaxWorkers opts)) pkgs w) \<longrightarrow>
        runInstall_batch numCPU inst ctx pkgs opts sched w = InstallPackages inst ctx pkgs opts w)
   \<and> (Supported (CheckParallelCapability numCPU
                    (NewParallelInstaller numCPU inst (MaxWorkers opts)) pkgs w) \<longrightarrow>
        supportsParallel (NewParallelInstaller numCPU inst (MaxWorkers opts)) w)"
proof (intro conjI impI)
  assume "\<not> supportsParallel pinst w"
  then show "InstallPackagesParallel pinst ctx pkgs opts sched w =
        (fst (InstallPackages (installer pinst) ctx pkgs opts w), pinst,
         snd (InstallPackages (installer pinst) ctx pkgs opts w))"
    by (simp add: InstallPackagesParallel_def split: prod.splits)
next
  assume "\<not> Supported (CheckParallelCapability numCPU
                      (NewParallelInstaller numCPU inst (MaxWorkers opts)) pkgs w)"
  then show "runInstall_batch numCPU inst ctx pkgs opts sched w
      = InstallPackages inst ctx pkgs opts w"
    by (simp add: runInstall_batch_def)
next
  assume "Supported (CheckParallelCapability numCPU
                    (NewParallelInstaller numCPU inst (MaxWorkers opts)) pkgs w)"
  then show "supportsParallel (NewParallelInstaller numCPU inst (MaxWorkers opts)) w"
    by (simp add: CheckParallelCapability_Supported)
qed

theorem InstallPackagesParallel_falls_back_witness:
  "InstallPackagesParallel (NewParallelInstaller 4 (InitializeManagers (machine_os ''linux'')) 0)
     background [''vim'', ''htop''] default_opts [] arch_box
   = (fst (InstallPackages (InitializeManagers (machine_os ''linux'')) background
             [''vim'', ''htop''] default_opts arch_box),
      NewParallelInstaller 4 (InitializeManagers (machine_os ''linux'')) 0,
      snd (InstallPackages (InitializeManagers (machine_os ''linux'')) background
             [''vim'', ''htop''] default_opts arch_box))
   \<and> runInstall_batch 4 (InitializeManagers (machine_os ''linux'')) background [''vim'', ''htop'']
       (default_opts\<lparr>Parallel := True\<rparr>) [] arch_box
     = InstallPackages (InitializeManagers (machine_os ''linux'')) background [''vim'', ''htop'']
         (default_opts\<lparr>Parallel := True\<rparr>) arch_box"
proof -
  let ?i = "InitializeManagers (machine_os ''linux'')"
  have inst: "installer (NewParallelInstaller 4 ?i 0) = ?i"
    by (simp add: NewParallelInstaller_def)
  have ns: "\<not> Supported (CheckParallelCapability 4
      (NewParallelInstaller 4 ?i (MaxWorkers (default_opts\<lparr>Parallel := True\<rparr>)))
      [''vim'', ''htop''] arch_box)"
    by (simp add: CheckParallelCapability_Supported supportsParallel_arch_box)
  from InstallPackagesParallel_falls_back [of "NewParallelInstaller 4 ?i 0" arch_box background
      "[''vim'', ''htop'']" default_opts "[]" 4 ?i]
  have a: "InstallPackagesParallel (NewParallelInstaller 4 ?i 0) background [''vim'', ''htop'']
      default_opts [] arch_box
     = (fst (InstallPackages ?i background [''vim'', ''htop''] default_opts arch_box),
        NewParallelInstaller 4 ?i 0,
        snd (InstallPackages ?i background [''vim'', ''htop''] default_opts arch_box))"
    using supportsParallel_arch_box [of 4 0] by (simp add: inst)
  from InstallPackagesParallel_falls_back [of "NewParallelInstaller 4 ?i 0" arch_box background
      "[''vim'', ''htop'']" "default_opts\<lparr>Parallel := True\<rparr>" "[]" 4 ?i] ns
  have b: "runInstall_batch 4 ?i background [''vim'', ''htop''] (default_opts\<lparr>Parallel := True\<rparr>)
      [] arch_box
     = InstallPackages ?i background [''vim'', ''htop''] (default_opts\<lparr>Parallel := True\<rparr>)
         arch_box"
    by blast
  show ?thesis using a b by blast
qed

text \<open>
  On an Arch Linux machine (pacman selected, capability unsupported) the parallel entry
  point installs both packages, one after the other, as the sequential one does.
\<close>

theorem InstallPackagesParallel_downgrades_counterexample:
  "\<not> Supported (CheckParallelCapability 4
        (NewParallelInstaller 4 (InitializeManagers (machine_os ''linux'')) 0)
        [''vim'', ''htop''] arch_box)
   \<and> InstallPackagesParallel (NewParallelInstaller 4 (InitializeManagers (machine_os ''linux'')) 0)
       background [''vim'', ''htop''] default_opts [] arch_box
     = (([\<lparr>PackageName = ''vim'', Manager = ''pacman'', Success = True, Skipped = False,
           Error = None\<rparr>,
          \<lparr>PackageName = ''htop'', Manager = ''pacman'', Success = True, Skipped = False,
           Error = None\<rparr>], None),
        NewParallelInstaller 4 (InitializeManagers (machine_os ''linux'')) 0,
        arch_box\<lparr>packages := {''htop'', ''vim'', ''git''}, clock := 4\<rparr>)
   \<and> InstallPackages (InitializeManagers (machine_os ''linux''))
       background [''vim'', ''htop''] default_opts arch_box
     = (([\<lparr>PackageName = ''vim'', Manager = ''pacman'', Success = True, Skipped = False,
           Error = None\<rparr>,
          \<lparr>PackageName = ''htop'', Manager = ''pacman'', Success = True, Skipped = False,
           Error = None\<rparr>], None),
        arch_box\<lparr>packages := {''htop'', ''vim'', ''git''}, clock := 4\<rparr>)"
proof -
  let ?i = "InitializeManagers (machine_os ''linux'')"
  have ab: "arch_box = arch_box\<lparr>packages := {''git''}, clock := 0\<rparr>"
    by (simp add: arch_box_def)
  have bg: "\<not> background w" for w by (simp add: background_def)
  have nf: "\<not> Force default_opts" by (simp add: default_opts_def)
  have seq: "InstallPackages ?i background [''vim'', ''htop''] default_opts arch_box
     = (([\<lparr>PackageName = ''vim'', Manager = ''pacman'', Success = True, Skipped = False,
           Error = None\<rparr>,
          \<lparr>PackageName = ''htop'', Manager = ''pacman'', Success = True, Skipped = False,
           Error = None\<rparr>], None),
        arch_box\<lparr>packages := {''htop'', ''vim'', ''git''}, clock := 4\<rparr>)"
  proof -
    show ?thesis
      apply (subst ab)
      apply (simp add: InstallPackages_def bg InstallPackage_arch_box install_cmd_background
          default_opts_def)
      apply (auto simp: arch_box_def)
      done
  qed
  have par: "InstallPackagesParallel (NewParallelInstaller 4 ?i 0)
       background [''vim'', ''htop''] default_opts [] arch_box
     = (case InstallPackages ?i background [''vim'', ''htop''] default_opts arch_box of
          (r, w') \<Rightarrow> (r, NewParallelInstaller 4 ?i 0, w'))"
    using supportsParallel_arch_box [of 4 0]
    by (simp add: InstallPackagesParallel_def NewParallelInstaller_def)
  show ?thesis
    by (simp add: par seq CheckParallelCapability_Supported supportsParallel_arch_box)
qed

text \<open>
  C6. The pool started by \<^verbatim>\<open>InstallPackagesParallel\<close> has exactly \<^verbatim>\<open>max-workers\<close>
  workers when that number is positive (no further cap is applied) and exactly
  \<^verbatim>\<open>runtime.NumCPU()\<close> workers otherwise. \<^verbatim>\<open>GetOptimalWorkerCount\<close> of the package
  count is the recommended figure of a supported capability check; it does not size the
  pool.
\<close>

theorem pool_size:
  "(0 < n \<longrightarrow> length (workers (start_pool (NewParallelInstaller numCPU inst n) pkgs w)) = nat n)
   \<and> (n \<le> 0 \<longrightarrow>
        length (workers (start_pool (NewParallelInstaller numCPU inst n) pkgs w)) = nat numCPU)
   \<and> (Supported (CheckParallelCapability numCPU pinst pkgs w) \<longrightarrow>
        RecommendedWorkers (CheckParallelCapability numCPU pinst pkgs w)
          = GetOptimalWorkerCount numCPU (int (length pkgs)))"
  by (simp add: start_pool_def NewParallelInstaller_def CheckParallelCapability_def Let_def)

theorem pool_size_witness:
  "length (workers (start_pool
      (NewParallelInstaller 8 (InitializeManagers (machine_os ''windows'')) 3)
      [''a'', ''b'', ''c'', ''d'', ''e''] windows_box)) = 3
   \<and> length (workers (start_pool
      (NewParallelInstaller 8 (InitializeManagers (machine_os ''windows'')) 0)
      [''a'', ''b'', ''c'', ''d'', ''e''] windows_box)) = 8
   \<and> RecommendedWorkers (CheckParallelCapability 8
        (NewParallelInstaller 8 (InitializeManagers (machine_os ''windows'')) 0)
        [''a'', ''b'', ''c'', ''d'', ''e''] windows_box) = 5"
proof -
  let ?i = "InitializeManagers (machine_os ''windows'')"
  let ?pk = "[''a'', ''b'', ''c'', ''d'', ''e'']"
  have sup: "Supported (CheckParallelCapability 8 (NewParallelInstaller 8 ?i 0) ?pk windows_box)"
    by (simp add: CheckParallelCapability_Supported supportsParallel_windows_box0)
  have five: "GetOptimalWorkerCount 8 (int (length ?pk)) = 5"
    by (simp add: GetOptimalWorkerCount_def)
  from pool_size [of 3 8 ?i ?pk windows_box]
  have a: "length (workers (start_pool (NewParallelInstaller 8 ?i 3) ?pk windows_box)) = 3"
    by simp
  from pool_size [of 0 8 ?i ?pk windows_box "NewParallelInstaller 8 ?i 0"] sup
  have b: "length (workers (start_pool (NewParallelInstaller 8 ?i 0) ?pk windows_box)) = 8"
    and c: "RecommendedWorkers (CheckParallelCapability 8 (NewParallelInstaller 8 ?i 0) ?pk
              windows_box) = GetOptimalWorkerCount 8 (int (length ?pk))"
    by simp_all
  show ?thesis using a b c five by simp
qed

text \<open>
  With \<^verbatim>\<open>max-workers = 0\<close>, eight CPUs and three packages the pool has eight workers,
  not the three of \<^verbatim>\<open>GetOptimalWorkerCount\<close>.
\<close>

theorem pool_size_counterexample:
  "length (workers (start_pool
      (NewParallelInstaller 8 (InitializeManagers (machine_os ''windows'')) 0)
      [''a'', ''b'', ''c''] windows_box))
   \<noteq> nat (GetOptimalWorkerCount 8 (int (length [''a'', ''b'', ''c''])))"
  by (simp add: start_pool_def NewParallelInstaller_def GetOptimalWorkerCount_def)

subsection \<open>The sequential batch\<close>

lemma InstallPackage_result:
  assumes "InstallPackage i ctx p opts w = ((r, e), w')"
  shows "PackageName r = p" and "Error r = e" and "e \<noteq> None \<longleftrightarrow> \<not> Success r"
  using assms
  by (auto simp: InstallPackage_def Let_def split: option.splits if_splits prod.splits)

lemma install_each_names: "map PackageName (fst (install_each i ctx opts pkgs w)) = pkgs"
proof (induction pkgs arbitrary: w)
  case Nil
  show ?case by simp
next
  case (Cons p ps)
  obtain r e w' where ip: "InstallPackage i ctx p opts w = ((r, e), w')"
    by (metis prod.exhaust)
  obtain rs w'' where ie: "install_each i ctx opts ps w' = (rs, w'')"
    by (metis prod.exhaust)
  from Cons [of w'] ie have "map PackageName rs = ps" by simp
  with ip ie InstallPackage_result(1) [OF ip] show ?case by simp
qed

lemma install_each_length: "length (fst (install_each i ctx opts pkgs w)) = length pkgs"
  using install_each_names [of i ctx opts pkgs w] by (metis length_map)

lemma install_each_append:
  "install_each i ctx opts (xs @ ys) w =
     (case install_each i ctx opts xs w of
        (rs, w') \<Rightarrow> (case install_each i ctx opts ys w' of (rs', w'') \<Rightarrow> (rs @ rs', w'')))"
  by (induction xs arbitrary: w) (auto split: prod.splits)

lemma install_each_take:
  "fst (install_each i ctx opts (take k pkgs) w) = take k (fst (install_each i ctx opts pkgs w))"
proof -
  have "install_each i ctx opts (take k pkgs @ drop k pkgs) w =
     (case install_each i ctx opts (take k pkgs) w of
        (rs, w') \<Rightarrow> (case install_each i ctx opts (drop k pkgs) w' of
                       (rs', w'') \<Rightarrow> (rs @ rs', w'')))"
    by (rule install_each_append)
  moreover have "length (fst (install_each i ctx opts (take k pkgs) w)) = min (length pkgs) k"
    by (simp add: install_each_length)
  ultimately show ?thesis
    by (auto split: prod.splits simp: min_def)
qed

text \<open>
  The loop from a state in which the first \<open>n\<close> packages have been processed: it goes on
  as long as the context is not done at the head of an iteration.
\<close>

lemma loop_runs_through:
  assumes "\<forall>k < length pkgs. \<not> ctx (snd (install_each i ctx opts (take k pkgs) w))"
  shows "InstallPackages_loop i ctx opts pkgs rs w
       = ((rs @ fst (install_each i ctx opts pkgs w), None), snd (install_each i ctx opts pkgs w))"
  using assms
proof (induction pkgs arbitrary: rs w)
  case Nil
  show ?case by simp
next
  case (Cons p ps)
  obtain r e w' where ip: "InstallPackage i ctx p opts w = ((r, e), w')"
    by (metis prod.exhaust)
  from Cons.prems have live: "\<not> ctx w" by fastforce
  have "\<forall>k < length ps. \<not> ctx (snd (install_each i ctx opts (take k ps) w'))"
  proof (intro allI impI)
    fix k assume "k < length ps"
    then have "Suc k < length (p # ps)" by simp
    with Cons.prems have "\<not> ctx (snd (install_each i ctx opts (take (Suc k) (p # ps)) w))"
      by blast
    then show "\<not> ctx (snd (install_each i ctx opts (take k ps) w'))"
      by (simp add: ip split: prod.splits)
  qed
  from Cons.IH [OF this, of "rs @ [r]"] live ip show ?case
    by (simp split: prod.splits)
qed

lemma loop_cancelled:
  assumes "k < length pkgs"
    and "\<forall>j < k. \<not> ctx (snd (install_each i ctx opts (take j pkgs) w))"
    and "ctx (snd (install_each i ctx opts (take k pkgs) w))"
  shows "InstallPackages_loop i ctx opts pkgs rs w
       = ((rs @ fst (install_each i ctx opts (take k pkgs) w), Some ErrContext),
          snd (install_each i ctx opts (take k pkgs) w))"
  using assms
proof (induction pkgs arbitrary: rs w k)
  case Nil
  then show ?case by simp
next
  case (Cons p ps)
  obtain r e w' where ip: "InstallPackage i ctx p opts w = ((r, e), w')"
    by (metis prod.exhaust)
  show ?case
  proof (cases k)
    case 0
    with Cons.prems(3) show ?thesis by simp
  next
    case (Suc k')
    with Cons.prems(2) have live: "\<not> ctx w" by fastforce
    from Suc Cons.prems(1) have k': "k' < length ps" by simp
    have before: "\<forall>j < k'. \<not> ctx (snd (install_each i ctx opts (take j ps) w'))"
    proof (intro allI impI)
      fix j assume "j < k'"
      then have "Suc j < k" using Suc by simp
      with Cons.prems(2) have "\<not> ctx (snd (install_each i ctx opts (take (Suc j) (p # ps)) w))"
        by blast
      then show "\<not> ctx (snd (install_each i ctx opts (take j ps) w'))"
        by (simp add: ip split: prod.splits)
    qed
    have at: "ctx (snd (install_each i ctx opts (take k' ps) w'))"
      using Cons.prems(3) Suc by (simp add: ip split: prod.splits)
    from Cons.IH [OF k' before at, of "rs @ [r]"] live ip Suc show ?thesis
      by (simp split: prod.splits)
  qed
qed

lemma loop_error:
  assumes "snd (fst (InstallPackages_loop i ctx opts pkgs rs w)) = Some e"
  shows "e = ErrContext \<and> ctx (snd (InstallPackages_loop i ctx opts pkgs rs w))
       \<and> length (fst (fst (InstallPackages_loop i ctx opts pkgs rs w))) < length rs + length pkgs"
  using assms
proof (induction pkgs arbitrary: rs w)
  case Nil
  then show ?case by simp
next
  case (Cons p ps)
  obtain r e' w' where ip: "InstallPackage i ctx p opts w = ((r, e'), w')"
    by (metis prod.exhaust)
  show ?case
  proof (cases "ctx w")
    case True
    with Cons.prems show ?thesis by simp
  next
    case live: False
    with ip Cons.prems
    have "snd (fst (InstallPackages_loop i ctx opts ps (rs @ [r]) w')) = Some e" by simp
    from Cons.IH [OF this] live ip show ?thesis by simp
  qed
qed

subsection \<open>Steps of the pool\<close>

lemma SelectManager_selected: "SelectManager i w = selected (GetAvailableManagers i w)"
  by (simp add: SelectManager_def selected_def)

lemma held_update:
  "k < length ws \<Longrightarrow>
     mset (concat (map held (ws[k := x]))) + mset (held (ws ! k))
       = mset (concat (map held ws)) + mset (held x)"
proof (induction ws arbitrary: k)
  case Nil
  then show ?case by simp
next
  case (Cons a ws)
  show ?case
  proof (cases k)
    case 0
    then show ?thesis by simp
  next
    case (Suc j)
    with Cons.prems have "j < length ws" by simp
    from Cons.IH [OF this] Suc show ?thesis by (simp add: ac_simps)
  qed
qed

lemma in_set_update: "x \<in> set (xs[k := y]) \<Longrightarrow> x = y \<or> x \<in> set xs"
  using set_update_subset_insert [of xs k y] by auto

lemma step_frame:
  "length (workers (step i ctx opts st a)) = length (workers st)"
  "j \<noteq> actor a \<Longrightarrow> workers (step i ctx opts st a) ! j = workers st ! j"
  "packageChan st = [] \<Longrightarrow> packageChan (step i ctx opts st a) = []"
  by (cases a; auto simp: worker_at_def set_worker_def finish_def Let_def
        split: option.splits worker.splits list.splits prod.splits if_splits)+

lemma step_keeps_channel:
  "(\<forall>k. a \<noteq> Receive k) \<Longrightarrow> packageChan (step i ctx opts st a) = packageChan st"
  by (cases a; auto simp: worker_at_def set_worker_def finish_def Let_def
        split: option.splits worker.splits list.splits prod.splits if_splits)

lemma steps_frame:
  "length (workers (foldl (step i ctx opts) st as)) = length (workers st)"
  "\<forall>a \<in> set as. j \<noteq> actor a \<Longrightarrow> workers (foldl (step i ctx opts) st as) ! j = workers st ! j"
  "packageChan st = [] \<Longrightarrow> packageChan (foldl (step i ctx opts) st as) = []"
  by (induction as arbitrary: st) (simp_all add: step_frame)

lemma steps_keep_channel:
  "\<forall>a \<in> set as. \<forall>k. a \<noteq> Receive k \<Longrightarrow>
     packageChan (foldl (step i ctx opts) st as) = packageChan st"
  by (induction as arbitrary: st) (simp_all add: step_keeps_channel)

lemma returned_stays:
  assumes "k < length (workers st)" and "workers st ! k = Returned err" and "actor a = k"
  shows "step i ctx opts st a = st"
  using assms by (cases a) (auto simp: worker_at_def)

lemma returned_stays_steps:
  assumes "k < length (workers st)" and "workers st ! k = Returned err"
    and "\<forall>a \<in> set as. actor a = k"
  shows "foldl (step i ctx opts) st as = st"
  using assms by (induction as) (simp_all add: returned_stays)

lemma step_tidy:
  assumes "tidy i st"
  shows "tidy i (step i ctx opts st a)"
proof (cases a)
  case (Probe k)
  show ?thesis
  proof (cases "\<exists>pkg m todo av. worker_at st k = Some (Probing pkg (m # todo) av)")
    case True
    then obtain pkg m todo av where w: "worker_at st k = Some (Probing pkg (m # todo) av)"
      by blast
    then have k: "k < length (workers st)" "workers st ! k = Probing pkg (m # todo) av"
      by (auto simp: worker_at_def split: if_splits)
    then have "Probing pkg (m # todo) av \<in> set (workers st)" by (metis nth_mem)
    with assms have "length (m # todo) \<le> length i" by (auto simp: tidy_def)
    with assms w Probe show ?thesis
      by (auto simp: tidy_def set_worker_def dest!: in_set_update)
  next
    case False
    with Probe have "step i ctx opts st a = st"
      by (auto split: option.splits worker.splits list.splits)
    with assms show ?thesis by simp
  qed
qed (use assms in \<open>auto simp: tidy_def worker_at_def set_worker_def finish_def Let_def
        dest!: in_set_update
        split: option.splits worker.splits list.splits prod.splits if_splits\<close>)

lemma steps_tidy:
  assumes "tidy i st"
  shows "tidy i (foldl (step i ctx opts) st as)"
  using assms by (induction as arbitrary: st) (simp_all add: step_tidy)


subsection \<open>Every worker returns\<close>

lemma probes_idle:
  assumes "k < length (workers st)" and "\<forall>pkg m todo av. workers st ! k \<noteq> Probing pkg (m # todo) av"
  shows "foldl (step i ctx opts) st (replicate n (Probe k)) = st"
proof -
  from assms have "step i ctx opts st (Probe k) = st"
    by (auto simp: worker_at_def split: worker.splits list.splits)
  then show ?thesis by (induction n) simp_all
qed

lemma probes_done:
  assumes "k < length (workers st)" and "workers st ! k = Probing pkg todo av"
    and "length todo \<le> n"
  shows "\<exists>av'. workers (foldl (step i ctx opts) st (replicate n (Probe k))) ! k
            = Probing pkg [] av'"
  using assms
proof (induction n arbitrary: st todo av)
  case 0
  then show ?case by simp
next
  case (Suc n)
  show ?case
  proof (cases todo)
    case Nil
    with Suc.prems have "foldl (step i ctx opts) st (replicate (Suc n) (Probe k)) = st"
      by (intro probes_idle) auto
    with Suc.prems Nil show ?thesis by simp
  next
    case (Cons m rest)
    let ?s = "step i ctx opts st (Probe k)"
    let ?av = "if IsAvailable m (pool_world st) then av @ [m] else av"
    from Suc.prems Cons have s: "k < length (workers ?s)" "workers ?s ! k = Probing pkg rest ?av"
      by (auto simp: worker_at_def set_worker_def)
    from Suc.prems(3) Cons have "length rest \<le> n" by simp
    from Suc.IH [OF s this] show ?thesis by simp
  qed
qed

lemma select_step:
  assumes "k < length (workers st)"
  shows "(\<forall>pkg av. workers st ! k \<noteq> Probing pkg [] av) \<Longrightarrow> step i ctx opts st (Select k) = st"
    and "workers st ! k = Probing pkg [] av \<Longrightarrow>
          workers (step i ctx opts st (Select k)) ! k = Selecting
          \<or> (\<exists>m. workers (step i ctx opts st (Select k)) ! k = Checking pkg m)"
  using assms
  by (auto simp: worker_at_def set_worker_def finish_def
        split: worker.splits list.splits option.splits)

lemma check_step:
  assumes "k < length (workers st)"
  shows "(\<forall>pkg m. workers st ! k \<noteq> Checking pkg m) \<Longrightarrow> step i ctx opts st (Check k) = st"
    and "workers st ! k = Checking pkg m \<Longrightarrow>
          workers (step i ctx opts st (Check k)) ! k = Selecting
          \<or> workers (step i ctx opts st (Check k)) ! k = Calling pkg m"
  using assms
  by (auto simp: worker_at_def set_worker_def finish_def Let_def split: worker.splits)

lemma complete_step:
  assumes "k < length (workers st)"
  shows "(\<forall>pkg m. workers st ! k \<noteq> Calling pkg m) \<Longrightarrow> step i ctx opts st (Complete k) = st"
    and "workers st ! k = Calling pkg m \<Longrightarrow>
          workers (step i ctx opts st (Complete k)) ! k = Selecting"
  using assms
  by (auto simp: worker_at_def set_worker_def finish_def Let_def
        split: worker.splits prod.splits option.splits)

lemma tail_ends:
  assumes k: "k < length (workers st)"
    and "workers st ! k = Selecting \<or> (\<exists>pkg av. workers st ! k = Probing pkg [] av)
         \<or> (\<exists>pkg m. workers st ! k = Checking pkg m) \<or> (\<exists>pkg m. workers st ! k = Calling pkg m)"
  shows "workers (foldl (step i ctx opts) st [Select k, Check k, Complete k]) ! k = Selecting"
proof -
  define s1 where "s1 = step i ctx opts st (Select k)"
  define s2 where "s2 = step i ctx opts s1 (Check k)"
  have run: "foldl (step i ctx opts) st [Select k, Check k, Complete k]
      = step i ctx opts s2 (Complete k)"
    by (simp add: s1_def s2_def)
  have k1: "k < length (workers s1)" using k unfolding s1_def by (simp only: step_frame)
  have k2: "k < length (workers s2)" using k1 unfolding s2_def by (simp only: step_frame)
  have a1: "workers s1 ! k = Selecting \<or> (\<exists>pkg m. workers s1 ! k = Checking pkg m)
      \<or> (\<exists>pkg m. workers s1 ! k = Calling pkg m)"
  proof (cases "\<exists>pkg av. workers st ! k = Probing pkg [] av")
    case True
    then obtain pkg av where "workers st ! k = Probing pkg [] av" by blast
    from select_step(2) [OF k this] show ?thesis unfolding s1_def by blast
  next
    case False
    then have "s1 = st" unfolding s1_def using select_step(1) [OF k] by blast
    with assms(2) False show ?thesis by auto
  qed
  have a2: "workers s2 ! k = Selecting \<or> (\<exists>pkg m. workers s2 ! k = Calling pkg m)"
  proof (cases "\<exists>pkg m. workers s1 ! k = Checking pkg m")
    case True
    then obtain pkg m where "workers s1 ! k = Checking pkg m" by blast
    from check_step(2) [OF k1 this] show ?thesis unfolding s2_def by blast
  next
    case False
    then have "s2 = s1" unfolding s2_def using check_step(1) [OF k1] by blast
    with a1 False show ?thesis by auto
  qed
  show ?thesis
  proof (cases "\<exists>pkg m. workers s2 ! k = Calling pkg m")
    case True
    then obtain pkg m where "workers s2 ! k = Calling pkg m" by blast
    from complete_step(2) [OF k2 this] show ?thesis unfolding run .
  next
    case False
    then have "step i ctx opts s2 (Complete k) = s2" using complete_step(1) [OF k2] by blast
    with a2 False show ?thesis unfolding run by auto
  qed
qed

lemma phases_end:
  assumes k: "k < length (workers st)"
    and inside: "\<forall>pkg. workers st ! k \<noteq> Received pkg" "\<forall>err. workers st ! k \<noteq> Returned err"
    and short: "short (length i) (workers st ! k)"
  shows "workers (foldl (step i ctx opts) st (phases i k)) ! k = Selecting"
proof -
  define s where "s = foldl (step i ctx opts) st (replicate (length i) (Probe k))"
  have run: "foldl (step i ctx opts) st (phases i k)
      = foldl (step i ctx opts) s [Select k, Check k, Complete k]"
    by (simp add: phases_def s_def)
  have ks: "k < length (workers s)" using k by (simp add: s_def steps_frame)
  have "workers s ! k = Selecting \<or> (\<exists>pkg av. workers s ! k = Probing pkg [] av)
         \<or> (\<exists>pkg m. workers s ! k = Checking pkg m) \<or> (\<exists>pkg m. workers s ! k = Calling pkg m)"
  proof (cases "workers st ! k")
    case (Probing pkg todo av)
    with short have "length todo \<le> length i" by simp
    from probes_done [OF k Probing this] show ?thesis unfolding s_def by blast
  next
    case Selecting
    then have "s = st" unfolding s_def using k by (intro probes_idle) auto
    with Selecting show ?thesis by simp
  next
    case (Checking pkg m)
    then have "s = st" unfolding s_def using k by (intro probes_idle) auto
    with Checking show ?thesis by simp
  next
    case (Calling pkg m)
    then have "s = st" unfolding s_def using k by (intro probes_idle) auto
    with Calling show ?thesis by simp
  next
    case (Received pkg)
    with inside show ?thesis by simp
  next
    case (Returned err)
    with inside show ?thesis by simp
  qed
  from tail_ends [OF ks this] show ?thesis unfolding run .
qed

lemma phases_actor: "\<forall>a \<in> set (phases i k). actor a = k"
  by (auto simp: phases_def)

lemma phases_no_receive: "\<forall>a \<in> set (Acquire k # phases i k). \<forall>j. a \<noteq> Receive j"
  by (auto simp: phases_def)

lemma round_takes_package:
  assumes "k < length (workers st)" and "workers st ! k = Selecting"
    and "packageChan st = pkg # rest"
  shows "k < length (workers (foldl (step i ctx opts) st (Receive k # Acquire k # phases i k)))
       \<and> workers (foldl (step i ctx opts) st (Receive k # Acquire k # phases i k)) ! k
           = Selecting
       \<and> packageChan (foldl (step i ctx opts) st (Receive k # Acquire k # phases i k)) = rest"
proof -
  define s where "s = foldl (step i ctx opts) st [Receive k, Acquire k]"
  have run: "foldl (step i ctx opts) st (Receive k # Acquire k # phases i k)
      = foldl (step i ctx opts) s (phases i k)"
    by (simp add: s_def)
  from assms have s: "k < length (workers s)" "workers s ! k = Probing pkg i []"
    "packageChan s = rest"
    by (auto simp: s_def worker_at_def set_worker_def)
  have "workers (foldl (step i ctx opts) s (phases i k)) ! k = Selecting"
    using s by (intro phases_end) auto
  moreover have "packageChan (foldl (step i ctx opts) s (phases i k)) = rest"
    using s(3) phases_no_receive [of k i] by (simp add: steps_keep_channel)
  moreover have "k < length (workers (foldl (step i ctx opts) s (phases i k)))"
    using s(1) by (simp add: steps_frame)
  ultimately show ?thesis unfolding run by blast
qed

lemma round_finds_channel_closed:
  assumes "k < length (workers st)" and "workers st ! k = Selecting" and "packageChan st = []"
  shows "k < length (workers (foldl (step i ctx opts) st (Receive k # Acquire k # phases i k)))
       \<and> workers (foldl (step i ctx opts) st (Receive k # Acquire k # phases i k)) ! k
           = Returned None
       \<and> packageChan (foldl (step i ctx opts) st (Receive k # Acquire k # phases i k)) = []"
proof -
  define s where "s = step i ctx opts st (Receive k)"
  have run: "foldl (step i ctx opts) st (Receive k # Acquire k # phases i k)
      = foldl (step i ctx opts) s (Acquire k # phases i k)"
    by (simp add: s_def)
  from assms have s: "k < length (workers s)" "workers s ! k = Returned None"
    "packageChan s = []"
    by (auto simp: s_def worker_at_def set_worker_def)
  have "foldl (step i ctx opts) s (Acquire k # phases i k) = s"
    using phases_actor [of i k] by (intro returned_stays_steps [OF s(1,2)]) auto
  with s show ?thesis unfolding run by simp
qed

lemma rounds_empty_channel:
  assumes "k < length (workers st)" and "workers st ! k = Selecting"
    and "length (packageChan st) \<le> n"
  shows "packageChan (foldl (step i ctx opts) st
            (concat (replicate n (Receive k # Acquire k # phases i k)))) = []
       \<and> (workers (foldl (step i ctx opts) st
            (concat (replicate n (Receive k # Acquire k # phases i k)))) ! k = Selecting
          \<or> workers (foldl (step i ctx opts) st
            (concat (replicate n (Receive k # Acquire k # phases i k)))) ! k = Returned None)"
  using assms
proof (induction n arbitrary: st)
  case 0
  then show ?case by simp
next
  case (Suc n)
  let ?round = "Receive k # Acquire k # phases i k"
  define s1 where "s1 = foldl (step i ctx opts) st ?round"
  have split: "foldl (step i ctx opts) st (concat (replicate (Suc n) ?round))
      = foldl (step i ctx opts) s1 (concat (replicate n ?round))"
    by (simp add: s1_def)
  show ?case
  proof (cases "packageChan st")
    case Nil
    from round_finds_channel_closed [OF Suc.prems(1,2) Nil, of i ctx opts]
    have s1: "k < length (workers s1)" "workers s1 ! k = Returned None" "packageChan s1 = []"
      unfolding s1_def by blast+
    have "foldl (step i ctx opts) s1 (concat (replicate n ?round)) = s1"
      using phases_actor [of i k] by (intro returned_stays_steps [OF s1(1,2)]) auto
    with s1 show ?thesis unfolding split by simp
  next
    case (Cons pkg rest)
    from round_takes_package [OF Suc.prems(1,2) Cons, of i ctx opts]
    have s1: "k < length (workers s1)" "workers s1 ! k = Selecting" "packageChan s1 = rest"
      unfolding s1_def by blast+
    from Suc.prems(3) Cons s1(3) have "length (packageChan s1) \<le> n" by simp
    from Suc.IH [OF s1(1,2) this] show ?thesis unfolding split .
  qed
qed


lemma rounds_as_schedule:
  "foldl (\<lambda>s pkg. foldl (step i ctx opts) s acts) st xs
     = foldl (step i ctx opts) st (concat (replicate (length xs) acts))"
  by (induction xs arbitrary: st) simp_all

lemma run_alone_as_schedule:
  "run_alone i ctx opts st k =
     foldl (step i ctx opts) st
       (alone_schedule i k
          (length (packageChan (foldl (step i ctx opts) st (Acquire k # phases i k)))))"
  unfolding run_alone_def alone_schedule_def Let_def rounds_as_schedule
  by simp

lemma alone_schedule_actor: "\<forall>a \<in> set (alone_schedule i k n). actor a = k"
  using phases_actor [of i k] by (auto simp: alone_schedule_def)

lemma run_alone_frame:
  "length (workers (run_alone i ctx opts st k)) = length (workers st)"
  "j \<noteq> k \<Longrightarrow> workers (run_alone i ctx opts st k) ! j = workers st ! j"
  "packageChan st = [] \<Longrightarrow> packageChan (run_alone i ctx opts st k) = []"
proof -
  define n where "n = length (packageChan (foldl (step i ctx opts) st (Acquire k # phases i k)))"
  have run: "run_alone i ctx opts st k = foldl (step i ctx opts) st (alone_schedule i k n)"
    unfolding n_def by (rule run_alone_as_schedule)
  show "length (workers (run_alone i ctx opts st k)) = length (workers st)"
    unfolding run by (rule steps_frame)
  show "workers (run_alone i ctx opts st k) ! j = workers st ! j" if "j \<noteq> k"
    unfolding run using that alone_schedule_actor [of i k n] by (intro steps_frame) auto
  show "packageChan (run_alone i ctx opts st k) = []" if "packageChan st = []"
    unfolding run using that by (rule steps_frame)
qed

lemma run_alone_tidy: "tidy i st \<Longrightarrow> tidy i (run_alone i ctx opts st k)"
  unfolding run_alone_as_schedule by (rule steps_tidy)

lemma prelude_selecting:
  assumes k: "k < length (workers st)" and alive: "\<forall>err. workers st ! k \<noteq> Returned err"
    and short: "short (length i) (workers st ! k)"
  shows "workers (foldl (step i ctx opts) st (Acquire k # phases i k)) ! k = Selecting"
proof -
  define s where "s = step i ctx opts st (Acquire k)"
  have run: "foldl (step i ctx opts) st (Acquire k # phases i k)
      = foldl (step i ctx opts) s (phases i k)"
    by (simp add: s_def)
  have ks: "k < length (workers s)" using k unfolding s_def by (simp only: step_frame)
  have "(\<forall>pkg. workers s ! k \<noteq> Received pkg) \<and> (\<forall>err. workers s ! k \<noteq> Returned err)
      \<and> short (length i) (workers s ! k)"
    using k alive short unfolding s_def
    by (cases "workers st ! k") (auto simp: worker_at_def set_worker_def)
  then show ?thesis unfolding run using ks by (intro phases_end) auto
qed

lemma run_alone_returns:
  assumes k: "k < length (workers st)" and short: "short (length i) (workers st ! k)"
  shows "(\<exists>err. workers (run_alone i ctx opts st k) ! k = Returned err)
       \<and> ((\<forall>err. workers st ! k \<noteq> Returned err) \<longrightarrow> packageChan (run_alone i ctx opts st k) = [])"
proof (cases "\<exists>err. workers st ! k = Returned err")
  case True
  then obtain err where err: "workers st ! k = Returned err" by blast
  have "run_alone i ctx opts st k = st"
    unfolding run_alone_as_schedule
    by (rule returned_stays_steps [OF k err]) (rule alone_schedule_actor)
  with err show ?thesis by simp
next
  case False
  define s1 where "s1 = foldl (step i ctx opts) st (Acquire k # phases i k)"
  define s2 where "s2 = foldl (step i ctx opts) s1
      (concat (replicate (length (packageChan s1)) (Receive k # Acquire k # phases i k)))"
  have run: "run_alone i ctx opts st k = step i ctx opts s2 (Receive k)"
    unfolding run_alone_def Let_def rounds_as_schedule s1_def s2_def ..
  have k1: "k < length (workers s1)" using k unfolding s1_def by (simp only: steps_frame)
  have sel: "workers s1 ! k = Selecting"
    unfolding s1_def using prelude_selecting [OF k _ short] False by blast
  from rounds_empty_channel [OF k1 sel order_refl, of i ctx opts]
  have s2: "packageChan s2 = []" "workers s2 ! k = Selecting \<or> workers s2 ! k = Returned None"
    unfolding s2_def by blast+
  have k2: "k < length (workers s2)" using k1 unfolding s2_def by (simp only: steps_frame)
  have "\<exists>err. workers (step i ctx opts s2 (Receive k)) ! k = Returned err"
    using s2 k2 by (auto simp: worker_at_def set_worker_def)
  moreover have "packageChan (step i ctx opts s2 (Receive k)) = []"
    using s2(1) by (rule step_frame(3))
  ultimately show ?thesis unfolding run by simp
qed

lemma drain_returns:
  assumes "m \<le> length (workers st)" and "tidy i st"
  shows "length (workers (foldl (run_alone i ctx opts) st [0..<m])) = length (workers st)
       \<and> tidy i (foldl (run_alone i ctx opts) st [0..<m])
       \<and> (\<forall>j<m. \<exists>err. workers (foldl (run_alone i ctx opts) st [0..<m]) ! j = Returned err)
       \<and> (\<forall>j\<ge>m. workers (foldl (run_alone i ctx opts) st [0..<m]) ! j = workers st ! j)
       \<and> (packageChan st = [] \<longrightarrow> packageChan (foldl (run_alone i ctx opts) st [0..<m]) = [])
       \<and> (0 < m \<and> (\<forall>err. workers st ! 0 \<noteq> Returned err) \<longrightarrow>
            packageChan (foldl (run_alone i ctx opts) st [0..<m]) = [])"
  using assms(1)
proof (induction m)
  case 0
  show ?case using assms(2) by simp
next
  case (Suc m)
  define s where "s = foldl (run_alone i ctx opts) st [0..<m]"
  from Suc have ih: "length (workers s) = length (workers st)"
    "tidy i s"
    "\<forall>j<m. \<exists>err. workers s ! j = Returned err"
    "\<forall>j\<ge>m. workers s ! j = workers st ! j"
    "packageChan st = [] \<longrightarrow> packageChan s = []"
    "0 < m \<and> (\<forall>err. workers st ! 0 \<noteq> Returned err) \<longrightarrow> packageChan s = []"
    unfolding s_def by simp_all
  have next_state: "foldl (run_alone i ctx opts) st [0..<Suc m] = run_alone i ctx opts s m"
    by (simp add: s_def)
  have m: "m < length (workers s)" using Suc.prems ih(1) by simp
  then have "workers s ! m \<in> set (workers s)" by simp
  with ih(2) have sh: "short (length i) (workers s ! m)" by (simp add: tidy_def)
  note ret = run_alone_returns [OF m sh, where ctx = ctx and opts = opts]
  have a: "length (workers (run_alone i ctx opts s m)) = length (workers st)"
    by (simp add: run_alone_frame ih(1))
  have t: "tidy i (run_alone i ctx opts s m)" using ih(2) by (rule run_alone_tidy)
  have b: "\<exists>err. workers (run_alone i ctx opts s m) ! j = Returned err" if "j < Suc m" for j
  proof (cases "j = m")
    case True
    with ret show ?thesis by blast
  next
    case False
    with that have "j < m" by simp
    with ih(3) False show ?thesis by (simp add: run_alone_frame)
  qed
  have c: "workers (run_alone i ctx opts s m) ! j = workers st ! j" if "Suc m \<le> j" for j
    using that ih(4) by (simp add: run_alone_frame)
  have d: "packageChan (run_alone i ctx opts s m) = []" if "packageChan st = []"
    using that ih(5) by (simp add: run_alone_frame)
  have e: "packageChan (run_alone i ctx opts s m) = []"
    if "\<forall>err. workers st ! 0 \<noteq> Returned err"
  proof (cases m)
    case 0
    then have "s = st" by (simp add: s_def)
    with ret 0 that show ?thesis by simp
  next
    case (Suc m')
    with ih(6) that have "packageChan s = []" by simp
    then show ?thesis by (simp add: run_alone_frame)
  qed
  show ?case unfolding next_state using a t b c d e by blast
qed

lemma all_returned_hold_nothing:
  assumes "\<forall>j<length ws. \<exists>err. ws ! j = Returned err"
  shows "concat (map held ws) = []"
proof -
  have "held x = []" if "x \<in> set ws" for x
    using that assms by (auto simp: in_set_conv_nth)
  then show ?thesis by simp
qed

lemma start_pool_tidy: "tidy i (start_pool pinst pkgs w)"
  by (simp add: tidy_def start_pool_def)

text \<open>
  Whatever the schedule and the context, every worker of the pool has returned when
  \<open>run_pool\<close> ends, so \<^verbatim>\<open>g.Wait()\<close> returns.
\<close>

lemma run_pool_all_returned:
  assumes "tidy i st"
  shows "\<forall>j < length (workers (run_pool i ctx opts sched st)).
     \<exists>err. workers (run_pool i ctx opts sched st) ! j = Returned err"
proof -
  define s where "s = foldl (step i ctx opts) st sched"
  have run: "run_pool i ctx opts sched st
      = foldl (run_alone i ctx opts) s [0..<length (workers s)]"
    by (simp add: run_pool_def s_def Let_def)
  have "tidy i s" unfolding s_def by (rule steps_tidy [OF assms])
  from drain_returns [OF order_refl this, where ctx = ctx and opts = opts]
  show ?thesis unfolding run by simp
qed

lemma run_pool_complete:
  assumes "tidy i s" and "staffed s"
  shows "pending (foldl (run_alone i ctx opts) s [0..<length (workers s)]) = []"
proof -
  note fin = drain_returns [OF order_refl assms(1), where ctx = ctx and opts = opts]
  have ws: "concat (map held (workers (foldl (run_alone i ctx opts) s [0..<length (workers s)])))
      = []"
    using fin by (intro all_returned_hold_nothing) simp
  have ch: "packageChan (foldl (run_alone i ctx opts) s [0..<length (workers s)]) = []"
  proof (cases "packageChan s")
    case Nil
    with fin show ?thesis by blast
  next
    case (Cons pkg rest)
    with assms(2) have ne: "workers s \<noteq> []"
      and nr: "\<forall>x \<in> set (workers s). \<forall>err. x \<noteq> Returned err"
      by (auto simp: staffed_def)
    from ne have "workers s ! 0 \<in> set (workers s)" by simp
    with nr ne have "workers s \<noteq> []" "\<forall>err. workers s ! 0 \<noteq> Returned err"
      by blast+
    with fin show ?thesis by simp
  qed
  show ?thesis by (simp add: pending_def ws ch)
qed

subsection \<open>What the sequential batch returns\<close>

lemma machine_update_order:
  "w\<lparr>clock := c, packages := P\<rparr> = w\<lparr>packages := P, clock := c\<rparr>"
  by simp

lemma install_each_nth:
  assumes "k < length pkgs"
  shows "fst (install_each i ctx opts pkgs w) ! k
       = fst (fst (InstallPackage i ctx (pkgs ! k) opts
                     (snd (install_each i ctx opts (take k pkgs) w))))"
proof -
  have split: "pkgs = take k pkgs @ (pkgs ! k # drop (Suc k) pkgs)"
    using assms by (simp add: id_take_nth_drop [symmetric])
  have len: "length (fst (install_each i ctx opts (take k pkgs) w)) = k"
    using assms by (simp add: install_each_length)
  have "install_each i ctx opts (take k pkgs @ (pkgs ! k # drop (Suc k) pkgs)) w =
     (case install_each i ctx opts (take k pkgs) w of
        (rs, w') \<Rightarrow> (case install_each i ctx opts (pkgs ! k # drop (Suc k) pkgs) w' of
                       (rs', w'') \<Rightarrow> (rs @ rs', w'')))"
    by (rule install_each_append)
  with split have "install_each i ctx opts pkgs w =
     (case install_each i ctx opts (take k pkgs) w of
        (rs, w') \<Rightarrow> (case install_each i ctx opts (pkgs ! k # drop (Suc k) pkgs) w' of
                       (rs', w'') \<Rightarrow> (rs @ rs', w'')))"
    by simp
  then show ?thesis using len
    by (auto split: prod.splits simp: nth_append)
qed

text \<open>
  C2. The claim says that without \<^verbatim>\<open>force\<close> the batch ends with the first failed
  package. The loop of \<^verbatim>\<open>InstallPackages\<close> does not end there: its \<^verbatim>\<open>break\<close> leaves the
  \<^verbatim>\<open>select\<close> statement only. Whatever \<^verbatim>\<open>force\<close> is, as long as the context is not done
  at the head of an iteration the call returns one result per input package, in input
  order, with a nil error: result \<open>k\<close> is the result of \<^verbatim>\<open>InstallPackage\<close> for input
  package \<open>k\<close> on the machine as the first \<open>k\<close> packages left it. When the context is
  first found done at the head of iteration \<open>k\<close>, the results are those of the first \<open>k\<close>
  packages.
\<close>

theorem InstallPackages_results:
  "((\<forall>k < length pkgs. \<not> ctx (snd (install_each i ctx opts (take k pkgs) w))) \<longrightarrow>
      InstallPackages i ctx pkgs opts w
        = ((fst (install_each i ctx opts pkgs w), None), snd (install_each i ctx opts pkgs w)))
   \<and> (\<forall>k < length pkgs.
        (\<forall>j < k. \<not> ctx (snd (install_each i ctx opts (take j pkgs) w)))
        \<and> ctx (snd (install_each i ctx opts (take k pkgs) w)) \<longrightarrow>
        fst (fst (InstallPackages i ctx pkgs opts w))
          = take k (fst (install_each i ctx opts pkgs w)))
   \<and> length (fst (install_each i ctx opts pkgs w)) = length pkgs
   \<and> (\<forall>k < length pkgs.
        fst (install_each i ctx opts pkgs w) ! k
          = fst (fst (InstallPackage i ctx (pkgs ! k) opts
                        (snd (install_each i ctx opts (take k pkgs) w))))
        \<and> PackageName (fst (install_each i ctx opts pkgs w) ! k) = pkgs ! k)"
proof -
  have through: "InstallPackages i ctx pkgs opts w
        = ((fst (install_each i ctx opts pkgs w), None), snd (install_each i ctx opts pkgs w))"
    if "\<forall>k < length pkgs. \<not> ctx (snd (install_each i ctx opts (take k pkgs) w))"
    using loop_runs_through [OF that, of "[]"] by (simp add: InstallPackages_def)
  have cut: "fst (fst (InstallPackages i ctx pkgs opts w))
          = take k (fst (install_each i ctx opts pkgs w))"
    if "k < length pkgs"
      and "(\<forall>j < k. \<not> ctx (snd (install_each i ctx opts (take j pkgs) w)))
        \<and> ctx (snd (install_each i ctx opts (take k pkgs) w))" for k
    using loop_cancelled [of k pkgs ctx i opts w "[]"] that
    by (simp add: InstallPackages_def install_each_take)
  have nth: "fst (install_each i ctx opts pkgs w) ! k
          = fst (fst (InstallPackage i ctx (pkgs ! k) opts
                        (snd (install_each i ctx opts (take k pkgs) w))))"
    if "k < length pkgs" for k
    using that by (rule install_each_nth)
  have name: "PackageName (fst (install_each i ctx opts pkgs w) ! k) = pkgs ! k"
    if "k < length pkgs" for k
  proof -
    have "PackageName (fst (install_each i ctx opts pkgs w) ! k)
        = map PackageName (fst (install_each i ctx opts pkgs w)) ! k"
      using that by (simp add: install_each_length)
    then show ?thesis by (simp add: install_each_names)
  qed
  show ?thesis
    using through cut nth name install_each_length [of i ctx opts pkgs w] by blast
qed

text \<open>
  On the Arch Linux machine, without \<^verbatim>\<open>force\<close> and with a context that is never done,
  the second of three packages fails and the third is installed all the same: the call
  returns three results where the specification expects two. With a deadline that passes
  during the first installation the call returns the result of the first package only.
\<close>

theorem InstallPackages_results_witness:
  "InstallPackages (InitializeManagers (machine_os ''linux'')) background
         [''vim'', ''nosuch'', ''htop''] default_opts arch_box
   = (([\<lparr>PackageName = ''vim'', Manager = ''pacman'', Success = True, Skipped = False,
        Error = None\<rparr>,
       \<lparr>PackageName = ''nosuch'', Manager = ''pacman'', Success = False, Skipped = False,
        Error = Some ErrExit\<rparr>,
       \<lparr>PackageName = ''htop'', Manager = ''pacman'', Success = True, Skipped = False,
        Error = None\<rparr>], None),
      arch_box\<lparr>packages := {''htop'', ''vim'', ''git''}, clock := 6\<rparr>)
   \<and> expected_results (InitializeManagers (machine_os ''linux'')) background default_opts
         [''vim'', ''nosuch'', ''htop''] arch_box
   = [\<lparr>PackageName = ''vim'', Manager = ''pacman'', Success = True, Skipped = False,
        Error = None\<rparr>,
       \<lparr>PackageName = ''nosuch'', Manager = ''pacman'', Success = False, Skipped = False,
        Error = Some ErrExit\<rparr>]
   \<and> fst (fst (InstallPackages (InitializeManagers (machine_os ''linux'')) (deadline 2)
         [''vim'', ''htop''] default_opts arch_box))
   = [\<lparr>PackageName = ''vim'', Manager = ''pacman'', Success = True, Skipped = False,
        Error = None\<rparr>]"
proof -
  let ?i = "InitializeManagers (machine_os ''linux'')"
  let ?pk = "[''vim'', ''nosuch'', ''htop'']"
  let ?r1 = "\<lparr>PackageName = ''vim'', Manager = ''pacman'', Success = True, Skipped = False,
        Error = None\<rparr>"
  let ?r2 = "\<lparr>PackageName = ''nosuch'', Manager = ''pacman'', Success = False, Skipped = False,
        Error = Some ErrExit\<rparr>"
  let ?r3 = "\<lparr>PackageName = ''htop'', Manager = ''pacman'', Success = True, Skipped = False,
        Error = None\<rparr>"
  have bg: "\<not> background w" for w by (simp add: background_def)
  have opts: "\<not> DryRun default_opts" "\<not> Force default_opts"
    by (simp_all add: default_opts_def)
  have each: "install_each ?i background default_opts ?pk arch_box
      = ([?r1, ?r2, ?r3], arch_box\<lparr>packages := {''htop'', ''vim'', ''git''}, clock := 6\<rparr>)"
    apply (subst arch_box_eq)
    apply (simp add: InstallPackage_arch_box opts install_cmd_background)
    apply (auto simp: arch_box_def)
    done
  from InstallPackages_results [of ?pk background ?i default_opts arch_box] bg
  have "InstallPackages ?i background ?pk default_opts arch_box
      = ((fst (install_each ?i background default_opts ?pk arch_box), None),
         snd (install_each ?i background default_opts ?pk arch_box))"
    by blast
  then have a: "InstallPackages ?i background ?pk default_opts arch_box
      = (([?r1, ?r2, ?r3], None), arch_box\<lparr>packages := {''htop'', ''vim'', ''git''}, clock := 6\<rparr>)"
    unfolding each by simp
  have b: "expected_results ?i background default_opts ?pk arch_box = [?r1, ?r2]"
    unfolding expected_results_def each using opts(2) by (simp add: upto_first_failure_def)
  have each2: "install_each ?i (deadline 2) default_opts [''vim'', ''htop''] arch_box
      = ([?r1, \<lparr>PackageName = ''htop'', Manager = ''pacman'', Success = False, Skipped = False,
                 Error = Some ErrExit\<rparr>],
         arch_box\<lparr>packages := {''vim'', ''git''}, clock := 2\<rparr>)"
    apply (subst arch_box_eq)
    apply (simp add: InstallPackage_arch_box opts install_cmd_def deadline_def Let_def
        machine_update_order)
    apply (auto simp: arch_box_def)
    done
  have heads: "(\<forall>j < 1. \<not> deadline 2 (snd (install_each ?i (deadline 2) default_opts
                                               (take j [''vim'', ''htop'']) arch_box)))
      \<and> deadline 2 (snd (install_each ?i (deadline 2) default_opts
                            (take 1 [''vim'', ''htop'']) arch_box))"
    apply (subst (1 2) arch_box_eq)
    apply (simp add: InstallPackage_arch_box opts install_cmd_def deadline_def Let_def
        machine_update_order)
    done
  from InstallPackages_results [of "[''vim'', ''htop'']" "deadline 2" ?i default_opts arch_box]
  have "\<forall>k < length [''vim'', ''htop''].
        (\<forall>j < k. \<not> deadline 2 (snd (install_each ?i (deadline 2) default_opts
                                        (take j [''vim'', ''htop'']) arch_box)))
        \<and> deadline 2 (snd (install_each ?i (deadline 2) default_opts
                            (take k [''vim'', ''htop'']) arch_box)) \<longrightarrow>
        fst (fst (InstallPackages ?i (deadline 2) [''vim'', ''htop''] default_opts arch_box))
          = take k (fst (install_each ?i (deadline 2) default_opts [''vim'', ''htop''] arch_box))"
    by blast
  then have "(\<forall>j < 1. \<not> deadline 2 (snd (install_each ?i (deadline 2) default_opts
                                        (take j [''vim'', ''htop'']) arch_box)))
        \<and> deadline 2 (snd (install_each ?i (deadline 2) default_opts
                            (take 1 [''vim'', ''htop'']) arch_box)) \<longrightarrow>
        fst (fst (InstallPackages ?i (deadline 2) [''vim'', ''htop''] default_opts arch_box))
          = take 1 (fst (install_each ?i (deadline 2) default_opts [''vim'', ''htop''] arch_box))"
    by (simp del: One_nat_def install_each.simps)
  with heads have c: "fst (fst (InstallPackages ?i (deadline 2) [''vim'', ''htop''] default_opts
          arch_box))
      = take 1 (fst (install_each ?i (deadline 2) default_opts [''vim'', ''htop''] arch_box))"
    by blast
  show ?thesis unfolding a b c each2 by simp
qed

end
